theory Spec2Isabelle
  imports Main "HOL-Library.Word"
begin

unbundle bit_operations_syntax

section \<open>The uTP link session of llarp: fragment codec, send queue, handshake\<close>

text \<open>
  A shallow embedding of \<^verbatim>\<open>llarp::utp::BaseSession\<close> and of the
  \<^verbatim>\<open>LinkLayer::OnRead\<close> callback. Buffers are byte lists, the session
  struct is a record, every early \<^verbatim>\<open>return false\<close> is an error value, and the
  collaborators the file only calls (the crypto function table of the router, the
  LinkIntro decoder, the upper-layer message handler, the uTP socket) are parameters.
\<close>

subsection \<open>Sizes\<close>

type_synonym byte = "8 word"
type_synonym bytes = "byte list"

definition FragmentHashSize :: nat where
  "FragmentHashSize = 32"

definition FragmentNonceSize :: nat where
  "FragmentNonceSize = 24"

definition FragmentOverheadSize :: nat where
  "FragmentOverheadSize = FragmentHashSize + FragmentNonceSize"

definition FragmentBodyPayloadSize :: nat where
  "FragmentBodyPayloadSize = 512"

definition FragmentBodyOverhead :: nat where
  "FragmentBodyOverhead = 4 * 2"

definition FragmentBodySize :: nat where
  "FragmentBodySize = FragmentBodyOverhead + FragmentBodyPayloadSize"

definition FragmentBufferSize :: nat where
  "FragmentBufferSize = FragmentOverheadSize + FragmentBodySize"

lemmas frag_sizes =
  FragmentHashSize_def FragmentNonceSize_def FragmentOverheadSize_def
  FragmentBodyPayloadSize_def FragmentBodyOverhead_def FragmentBodySize_def
  FragmentBufferSize_def

subsection \<open>Machine arithmetic and memory\<close>

text \<open>
  \<^verbatim>\<open>size_t\<close> and \<^verbatim>\<open>ssize_t\<close> are 64 bits wide on the platforms the
  repository builds for; the conversions wrap.
\<close>

definition size_t_of :: "int \<Rightarrow> nat" where
  "size_t_of i = nat (i mod 2 ^ 64)"

definition ssize_t_of :: "int \<Rightarrow> int" where
  "ssize_t_of i = (i + 2 ^ 63) mod 2 ^ 64 - 2 ^ 63"

text \<open>
  \<^verbatim>\<open>memcpy(dst + off, src, n)\<close> on byte lists. The source copy is defined only when
  \<open>n \<le> length src\<close> and \<open>off + n \<le> length dst\<close>; where the program can
  leave that range the caller below checks it and returns an explicit error.
\<close>

definition memcpy :: "bytes \<Rightarrow> nat \<Rightarrow> bytes \<Rightarrow> nat \<Rightarrow> bytes" where
  "memcpy dst off src n = take off dst @ take n src @ drop (off + n) dst"

text \<open>\<^verbatim>\<open>htobe32buf\<close> and \<^verbatim>\<open>bufbe32toh\<close> of endian.hpp: four bytes, most significant first.\<close>

definition htobe32buf :: "32 word \<Rightarrow> bytes" where
  "htobe32buf v = [ucast (drop_bit 24 v), ucast (drop_bit 16 v), ucast (drop_bit 8 v), ucast v]"

definition bufbe32toh :: "bytes \<Rightarrow> 32 word" where
  "bufbe32toh b =
     push_bit 24 (ucast (b ! 0)) OR push_bit 16 (ucast (b ! 1)) OR
     push_bit 8 (ucast (b ! 2)) OR ucast (b ! 3)"

text \<open>
  Modelled from the spec: \<^verbatim>\<open>llarp_buffer_read_uint32\<close> (llarp/buffer.h is not among
  the sources). The body header is "two big-endian u32"; the reader takes four bytes at
  the cursor, advances it, and fails when fewer than four bytes remain.
\<close>

definition llarp_buffer_read_uint32 :: "bytes \<Rightarrow> nat \<Rightarrow> (32 word \<times> nat) option" where
  "llarp_buffer_read_uint32 b cur =
     (if cur + 4 \<le> length b then Some (bufbe32toh (drop cur b), cur + 4) else None)"

subsection \<open>The session and its collaborators\<close>

datatype State =
  eInitial | eConnecting | eLinkEstablished | eCryptoHandshake | eSessionReady | eClose

record RouterContact =
  pubkey :: bytes
  enckey :: bytes

record LinkIntroMessage =
  rc :: RouterContact
  N :: bytes

text \<open>Calls the session makes on the transport and on the router, in order.\<close>

datatype effect =
  UtpShutdown "nat option"
  | UtpClose "nat option"
  | UtpClearUserdata "nat option"
  | UtpReadDrained nat
  | MapAddr bytes
  | LinkSessionEstablished RouterContact

record BaseSession =
  remoteRC :: RouterContact
  sock :: "nat option"
  gotLIM :: bool
  sessionKey :: bytes
  lastActive :: nat
  sendq :: "bytes list"
  sendBufOffset :: nat
  recvBuf :: bytes
  recvBufOffset :: nat
  recvMsg :: bytes
  recvMsgOffset :: nat
  stalled :: bool
  state :: State
  trace :: "effect list"

text \<open>
  What \<^verbatim>\<open>Router()\<close>, \<^verbatim>\<open>parent\<close> and \<^verbatim>\<open>LinkIntroMessage\<close> provide. The keyed
  hash returns \<open>None\<close> where the C function returns false; \<open>xchacha20 key nonce data\<close>
  is the buffer after the in-place cipher; a Diffie-Hellman function returns the
  shared secret or fails.
\<close>

record llarp_router =
  xchacha20 :: "bytes \<Rightarrow> bytes \<Rightarrow> bytes \<Rightarrow> bytes"
  hmac :: "bytes \<Rightarrow> bytes \<Rightarrow> bytes option"
  transport_dh_server :: "bytes \<Rightarrow> bytes \<Rightarrow> bytes \<Rightarrow> bytes option"
  TransportSecretKey :: bytes
  LLARP_PROTO_VERSION :: "32 word"
  BDecode :: "bytes \<Rightarrow> LinkIntroMessage option"
  HandleMessage :: "LinkIntroMessage \<Rightarrow> bool"
  HandleRecvLinkMessageBuffer :: "bytes \<Rightarrow> bool"

datatype link_error =
  SessionNotReady
  | KeyedHashFailed
  | IntegrityFailed
  | HeaderReadFailed
  | FragmentTooBig
  | MessageRejected
  | ReadOutOfBounds

definition Alive :: "nat \<Rightarrow> BaseSession \<Rightarrow> BaseSession" where
  "Alive now s = s\<lparr>lastActive := now\<rparr>"

definition EnterState :: "nat \<Rightarrow> State \<Rightarrow> BaseSession \<Rightarrow> BaseSession" where
  "EnterState now st s =
     (let s1 = s\<lparr>state := st\<rparr>;
          s2 = (if st = eSessionReady
                then s1\<lparr>trace := trace s1 @
                       [MapAddr (pubkey (remoteRC s1)), LinkSessionEstablished (remoteRC s1)]\<rparr>
                else s1)
      in Alive now s2)"

definition Close :: "nat \<Rightarrow> BaseSession \<Rightarrow> BaseSession" where
  "Close now s =
     (let s1 = (if state s \<noteq> eClose
                then s\<lparr>trace := trace s @
                       [UtpShutdown (sock s), UtpClose (sock s), UtpClearUserdata (sock s)]\<rparr>
                else s)
      in (EnterState now eClose s1)\<lparr>sock := None\<rparr>)"

text \<open>
  \<^verbatim>\<open>IsTimedOut\<close> with \<^verbatim>\<open>sessionTimeout = 30 * 1000\<close>, and the \<^verbatim>\<open>TimedOut\<close> and
  \<^verbatim>\<open>IsEstablished\<close> closures the base constructor binds.
\<close>

definition IsTimedOut :: "nat \<Rightarrow> BaseSession \<Rightarrow> bool" where
  "IsTimedOut now s =
     (if now < lastActive s then False
      else if now - lastActive s \<ge> 30 * 1000 then True
      else False)"

definition TimedOut :: "nat \<Rightarrow> BaseSession \<Rightarrow> bool" where
  "TimedOut now s = (IsTimedOut now s \<or> state s = eClose)"

definition IsEstablished :: "BaseSession \<Rightarrow> bool" where
  "IsEstablished s = (state s = eSessionReady \<or> state s = eLinkEstablished)"

subsection \<open>Fragment codec\<close>

text \<open>\<^verbatim>\<open>buf.Randomize()\<close>: every byte of the buffer is replaced by the generator's output.\<close>

definition Randomize :: "(nat \<Rightarrow> byte) \<Rightarrow> bytes \<Rightarrow> bytes" where
  "Randomize rnd buf = map rnd [0..<length buf]"

text \<open>
  \<^verbatim>\<open>EncryptThenHash(buf, ptr, sz, isLastFragment)\<close>; the result is \<open>buf\<close> afterwards.
  The return value of the keyed hash is ignored, as in the source: when it fails the
  first 32 bytes stay as randomised.
\<close>

definition EncryptThenHash ::
  "llarp_router \<Rightarrow> BaseSession \<Rightarrow> (nat \<Rightarrow> byte) \<Rightarrow> bytes \<Rightarrow> bytes \<Rightarrow> nat \<Rightarrow> bool \<Rightarrow> bytes" where
  "EncryptThenHash r s rnd buf ptr sz isLastFragment =
     (if state s \<noteq> eSessionReady then buf
      else
        let b0 = Randomize rnd buf;
            b1 = memcpy b0 FragmentOverheadSize
                   (htobe32buf (if isLastFragment then 0 else 1)) 4;
            b2 = memcpy b1 (FragmentOverheadSize + 4) (htobe32buf (of_nat sz)) 4;
            b3 = memcpy b2 (FragmentOverheadSize + 8) ptr sz;
            nonce = take FragmentNonceSize (drop FragmentHashSize b3);
            payload = xchacha20 r (sessionKey s) nonce
                        (take FragmentBodySize (drop FragmentOverheadSize b3));
            b4 = memcpy b3 FragmentOverheadSize payload FragmentBodySize
        in case hmac r (sessionKey s) (take (length b4 - FragmentHashSize) (drop FragmentHashSize b4)) of
             None \<Rightarrow> b4
           | Some digest \<Rightarrow> memcpy b4 0 digest FragmentHashSize)"

text \<open>
  \<^verbatim>\<open>VerifyThenDecrypt(buf)\<close>. \<open>buf\<close> is the memory from the pointer on: the 576 bytes
  of the fragment and whatever the caller's buffer holds after them. The result is the
  error (\<open>None\<close> for \<^verbatim>\<open>true\<close>), the session, and the buffer after the in-place cipher.
  The final \<^verbatim>\<open>memcpy\<close> reads \<open>lower\<close> bytes from the cursor; leaving the caller's
  buffer is undefined behaviour in the source and \<open>ReadOutOfBounds\<close> here.
\<close>

definition VerifyThenDecrypt ::
  "llarp_router \<Rightarrow> BaseSession \<Rightarrow> bytes \<Rightarrow> link_error option \<times> BaseSession \<times> bytes" where
  "VerifyThenDecrypt r s buf =
     (case hmac r (sessionKey s)
             (take (FragmentBufferSize - FragmentHashSize) (drop FragmentHashSize buf)) of
        None \<Rightarrow> (Some KeyedHashFailed, s, buf)
      | Some digest \<Rightarrow>
          if take FragmentHashSize buf \<noteq> digest then (Some IntegrityFailed, s, buf)
          else
            let body = xchacha20 r (sessionKey s)
                         (take FragmentNonceSize (drop FragmentHashSize buf))
                         (take (FragmentBufferSize - FragmentOverheadSize)
                            (drop FragmentOverheadSize buf));
                buf' = memcpy buf FragmentOverheadSize body
                         (FragmentBufferSize - FragmentOverheadSize)
            in (case llarp_buffer_read_uint32 body 0 of
                 None \<Rightarrow> (Some HeaderReadFailed, s, buf')
               | Some (upper, cur1) \<Rightarrow>
                   (case llarp_buffer_read_uint32 body cur1 of
                      None \<Rightarrow> (Some HeaderReadFailed, s, buf')
                    | Some (lower, cur2) \<Rightarrow>
                        if size_t_of (int (unat lower) + int (recvMsgOffset s)) > length (recvMsg s)
                        then (Some FragmentTooBig, s, buf')
                        else if FragmentOverheadSize + cur2 + unat lower > length buf'
                        then (Some ReadOutOfBounds, s, buf')
                        else
                          let msg = memcpy (recvMsg s) (recvMsgOffset s)
                                      (drop (FragmentOverheadSize + cur2) buf') (unat lower);
                              off = size_t_of (int (recvMsgOffset s) + int (unat lower))
                          in if upper = 0
                             then
                               let result = HandleRecvLinkMessageBuffer r (take off msg)
                               in (if result then None else Some MessageRejected,
                                   s\<lparr>recvMsg := msg, recvMsgOffset := 0\<rparr>, buf')
                             else (None, s\<lparr>recvMsg := msg, recvMsgOffset := off\<rparr>, buf'))))"

subsection \<open>Send queue\<close>

text \<open>
  The loop of \<^verbatim>\<open>QueueWriteBuffers\<close>: \<open>cur\<close> is the unsent rest of the caller's
  buffer (\<^verbatim>\<open>sz\<close> is its length), \<open>k\<close> counts the fragments made so far and selects
  the generator output of the k-th \<^verbatim>\<open>Randomize\<close>. \<^verbatim>\<open>sendq.emplace()\<close> appends a
  fresh fragment buffer, which \<^verbatim>\<open>EncryptThenHash\<close> then fills.
\<close>

function QueueWriteBuffers_loop ::
  "llarp_router \<Rightarrow> (nat \<Rightarrow> nat \<Rightarrow> byte) \<Rightarrow> nat \<Rightarrow> BaseSession \<Rightarrow> bytes \<Rightarrow> BaseSession" where
  "QueueWriteBuffers_loop r rnds k s cur =
     (if length cur = 0 then s
      else
        let sz = length cur;
            n = min FragmentBodyPayloadSize sz;
            fresh = replicate FragmentBufferSize (0 :: byte);
            frag = EncryptThenHash r s (rnds k) fresh cur n (sz - n = 0)
        in QueueWriteBuffers_loop r rnds (Suc k) (s\<lparr>sendq := sendq s @ [frag]\<rparr>) (drop n cur))"
  by pat_completeness auto
termination
  by (relation "measure (\<lambda>(r, rnds, k, s, cur). length cur)")
     (auto simp: FragmentBodyPayloadSize_def)

declare QueueWriteBuffers_loop.simps [simp del]

definition QueueWriteBuffers ::
  "llarp_router \<Rightarrow> (nat \<Rightarrow> nat \<Rightarrow> byte) \<Rightarrow> nat \<Rightarrow> BaseSession \<Rightarrow> bytes \<Rightarrow> bool \<times> BaseSession" where
  "QueueWriteBuffers r rnds now s buf =
     (if state s \<noteq> eSessionReady then (False, s)
      else (True, QueueWriteBuffers_loop r rnds 0 (s\<lparr>lastActive := now\<rparr>) buf))"

text \<open>
  \<^verbatim>\<open>write_ll\<close> over a transport \<open>utp_write\<close>: given the transport's state and the
  \<open>sz\<close> bytes offered, it returns the \<^verbatim>\<open>ssize_t\<close> result and the transport's next
  state.
\<close>

definition write_ll ::
  "('t \<Rightarrow> bytes \<Rightarrow> int \<times> 't) \<Rightarrow> BaseSession \<Rightarrow> 't \<Rightarrow> bytes \<Rightarrow> nat \<Rightarrow> int \<times> 't" where
  "write_ll utp_write s t buf sz =
     (if sock s = None then (0, t) else utp_write t (take sz buf))"

text \<open>One turn of the loop of \<^verbatim>\<open>PumpWrite\<close>, entered with a non-empty queue.\<close>

definition PumpWrite_body ::
  "('t \<Rightarrow> bytes \<Rightarrow> int \<times> 't) \<Rightarrow> BaseSession \<times> 't \<Rightarrow> BaseSession \<times> 't" where
  "PumpWrite_body utp_write st =
     (let s = fst st;
          expect = ssize_t_of (int FragmentBufferSize - int (sendBufOffset s));
          w = write_ll utp_write s (snd st) (drop (sendBufOffset s) (hd (sendq s)))
                (size_t_of expect)
      in if fst w \<noteq> expect
         then (s\<lparr>sendBufOffset := size_t_of (int (sendBufOffset s) + fst w), stalled := True\<rparr>,
               snd w)
         else (s\<lparr>sendBufOffset := 0, sendq := tl (sendq s)\<rparr>, snd w))"

function PumpWrite ::
  "('t \<Rightarrow> bytes \<Rightarrow> int \<times> 't) \<Rightarrow> BaseSession \<times> 't \<Rightarrow> BaseSession \<times> 't" where
  "PumpWrite utp_write st =
     (if length (sendq (fst st)) > 0 \<and> \<not> stalled (fst st)
      then PumpWrite utp_write (PumpWrite_body utp_write st)
      else st)"
  by pat_completeness auto
termination
  by (relation "measure (\<lambda>(w, st). length (sendq (fst st)) + (if stalled (fst st) then 0 else 1))")
     (auto simp: PumpWrite_body_def Let_def)

declare PumpWrite.simps [simp del]

text \<open>
  The states in which the loop of \<^verbatim>\<open>PumpWrite\<close> enters its body, in order: the
  same loop, recording each turn instead of returning the last state.
\<close>

function PumpWrite_turns ::
  "('t \<Rightarrow> bytes \<Rightarrow> int \<times> 't) \<Rightarrow> BaseSession \<times> 't \<Rightarrow> (BaseSession \<times> 't) list" where
  "PumpWrite_turns utp_write st =
     (if length (sendq (fst st)) > 0 \<and> \<not> stalled (fst st)
      then st # PumpWrite_turns utp_write (PumpWrite_body utp_write st)
      else [])"
  by pat_completeness auto
termination
  by (relation "measure (\<lambda>(w, st). length (sendq (fst st)) + (if stalled (fst st) then 0 else 1))")
     (auto simp: PumpWrite_body_def Let_def)

declare PumpWrite_turns.simps [simp del]

subsection \<open>Receive path\<close>

text \<open>
  The "process full" loop and the "hold onto leftovers" tail of \<^verbatim>\<open>Recv\<close>; \<open>ptr\<close> is
  the unread rest of the delivery (\<^verbatim>\<open>s\<close> is its length).
\<close>

function Recv_full ::
  "llarp_router \<Rightarrow> BaseSession \<Rightarrow> bytes \<Rightarrow> link_error option \<times> BaseSession" where
  "Recv_full r s ptr =
     (if length ptr \<ge> FragmentBufferSize
      then (case VerifyThenDecrypt r s ptr of
              (Some e, s', b) \<Rightarrow> (Some e, s')
            | (None, s', b) \<Rightarrow> Recv_full r s' (drop FragmentBufferSize ptr))
      else if length ptr \<noteq> 0
      then (None, s\<lparr>recvBuf := memcpy (recvBuf s) 0 ptr (length ptr),
                      recvBufOffset := length ptr\<rparr>)
      else (None, s))"
  by pat_completeness auto
termination
  by (relation "measure (\<lambda>(r, s, ptr). length ptr)") (auto simp: frag_sizes)

declare Recv_full.simps [simp del]


definition Recv ::
  "llarp_router \<Rightarrow> nat \<Rightarrow> BaseSession \<Rightarrow> bytes \<Rightarrow> link_error option \<times> BaseSession" where
  "Recv r now s buf =
     (if state s \<noteq> eSessionReady then (Some SessionNotReady, s)
      else
        let s0 = Alive now s
        in if recvBufOffset s0 \<noteq> 0
           then
             let left = size_t_of (int FragmentBufferSize - int (recvBufOffset s0))
             in if length buf \<ge> left
                then
                  let s1 = s0\<lparr>recvBuf := memcpy (recvBuf s0) (recvBufOffset s0) buf left,
                               recvBufOffset := 0\<rparr>
                  in (case VerifyThenDecrypt r s1 (recvBuf s1) of
                        (Some e, s2, rb) \<Rightarrow> (Some e, s2\<lparr>recvBuf := rb\<rparr>)
                      | (None, s2, rb) \<Rightarrow> Recv_full r (s2\<lparr>recvBuf := rb\<rparr>) (drop left buf))
                else (None, s0\<lparr>recvBuf := memcpy (recvBuf s0) (recvBufOffset s0) buf (length buf),
                                 recvBufOffset := recvBufOffset s0 + length buf\<rparr>)
           else Recv_full r s0 buf)"

subsection \<open>Handshake and the read callback\<close>

definition DoKeyExchange ::
  "(bytes \<Rightarrow> bytes \<Rightarrow> bytes \<Rightarrow> bytes option) \<Rightarrow> nat \<Rightarrow> BaseSession \<Rightarrow> bytes \<Rightarrow> bytes \<Rightarrow> bytes
     \<Rightarrow> bool \<times> BaseSession" where
  "DoKeyExchange dh now s n other secret =
     (case dh other secret n of
        None \<Rightarrow> (False, Close now s)
      | Some k \<Rightarrow> (True, s\<lparr>sessionKey := k\<rparr>))"

text \<open>
  \<^verbatim>\<open>RecvHandshake(buf, bufsz, p, s)\<close>; \<open>sk\<close> is the socket of the callback. The
  value \<^verbatim>\<open>Recv\<close> returns for the leftover bytes is dropped, as in the source.
\<close>

definition RecvHandshake ::
  "llarp_router \<Rightarrow> nat \<Rightarrow> BaseSession \<Rightarrow> bytes \<Rightarrow> nat \<Rightarrow> BaseSession" where
  "RecvHandshake r now s buf sk =
     (let s0 = s\<lparr>sock := Some sk\<rparr>;
          sz = length buf
      in if sz \<le> 8 then Close now s0
         else if bufbe32toh buf \<noteq> LLARP_PROTO_VERSION r then Close now s0
         else
           let sz1 = sz - 4 - 4;
               limsz = unat (bufbe32toh (drop 4 buf))
           in if limsz > sz1 then Close now s0
              else (case BDecode r (take limsz (drop 8 buf)) of
                      None \<Rightarrow> Close now s0
                    | Some msg \<Rightarrow>
                        if \<not> HandleMessage r msg then s0
                        else
                          let sz2 = sz1 - limsz;
                              s1 = s0\<lparr>remoteRC := rc msg\<rparr>;
                              kx = DoKeyExchange (transport_dh_server r) now s1 (N msg)
                                     (enckey (remoteRC s1)) (TransportSecretKey r)
                          in if \<not> fst kx then snd kx
                             else
                               let s3 = (if sz2 \<noteq> 0
                                         then snd (Recv r now (snd kx) (drop (8 + limsz) buf))
                                         else snd kx)
                               in EnterState now eSessionReady (s3\<lparr>gotLIM := True\<rparr>)))"

text \<open>
  \<^verbatim>\<open>LinkLayer::OnRead\<close>: \<open>self\<close> is the session bound to the socket (\<open>None\<close> for a
  null userdata pointer), \<open>buf\<close> the delivery.
\<close>

definition OnRead ::
  "llarp_router \<Rightarrow> nat \<Rightarrow> BaseSession option \<Rightarrow> bytes \<Rightarrow> nat \<Rightarrow> BaseSession option" where
  "OnRead r now self buf arg_socket =
     (case self of
        None \<Rightarrow> None
      | Some s \<Rightarrow>
          Some (if state s = eClose then s
                else if state s = eSessionReady
                then (case Recv r now s buf of
                        (Some e, s') \<Rightarrow> Close now s'
                      | (None, s') \<Rightarrow> s'\<lparr>trace := trace s' @ [UtpReadDrained arg_socket]\<rparr>)
                else if state s = eLinkEstablished
                then (let s' = RecvHandshake r now s buf arg_socket
                      in s'\<lparr>trace := trace s' @ [UtpReadDrained arg_socket]\<rparr>)
                else s))"


subsection \<open>Construction\<close>

text \<open>
  The inbound constructor \<^verbatim>\<open>BaseSession(r, s, addr)\<close> after the delegated base
  constructor, followed by \<^verbatim>\<open>OnLinkEstablished\<close> as \<^verbatim>\<open>OnAccept\<close> calls it. Members
  the constructors leave uninitialised (\<open>gotLIM\<close>, \<open>sessionKey\<close>, the buffers) are
  zero here. \<open>maxmsg\<close> is \<^verbatim>\<open>MAX_LINK_MSG_SIZE\<close>, the size of \<open>recvMsg\<close>.
\<close>

definition inbound_session :: "nat \<Rightarrow> nat \<Rightarrow> nat \<Rightarrow> BaseSession" where
  "inbound_session maxmsg now sk =
     EnterState now eLinkEstablished
       \<lparr>remoteRC = \<lparr>pubkey = [], enckey = []\<rparr>,
        sock = Some sk,
        gotLIM = False,
        sessionKey = replicate 32 0,
        lastActive = now,
        sendq = [],
        sendBufOffset = 0,
        recvBuf = replicate FragmentBufferSize 0,
        recvBufOffset = 0,
        recvMsg = replicate maxmsg 0,
        recvMsgOffset = 0,
        stalled = False,
        state = eInitial,
        trace = []\<rparr>"

text \<open>A session that has completed the handshake with session key \<open>key\<close>.\<close>

definition ready_session :: "nat \<Rightarrow> bytes \<Rightarrow> BaseSession" where
  "ready_session maxmsg key =
     (inbound_session maxmsg 0 4)\<lparr>sessionKey := key, gotLIM := True, state := eSessionReady\<rparr>"

subsection \<open>Contracts of the collaborators and invariants of the session\<close>

text \<open>
  The transport's \<^verbatim>\<open>utp_write\<close> is non-blocking and may write short: it accepts
  between zero and all of the bytes offered.
\<close>

definition utp_write_ok :: "('t \<Rightarrow> bytes \<Rightarrow> int \<times> 't) \<Rightarrow> bool" where
  "utp_write_ok w = (\<forall>t b. 0 \<le> fst (w t b) \<and> fst (w t b) \<le> int (length b))"

text \<open>
  The send side of a well-formed session: the offset lies inside the head fragment and
  every queued \<^verbatim>\<open>FragmentBuffer\<close> has its fixed size.
\<close>

definition sendq_inv :: "BaseSession \<Rightarrow> bool" where
  "sendq_inv s =
     (sendBufOffset s < FragmentBufferSize \<and>
      (\<forall>f \<in> set (sendq s). length f = FragmentBufferSize))"

text \<open>
  A transport for running the model: its state is the number of bytes the socket
  still takes before it blocks.
\<close>

definition window_write :: "nat \<Rightarrow> bytes \<Rightarrow> int \<times> nat" where
  "window_write win b = (int (min win (length b)), win - min win (length b))"

text \<open>
  What the fragment codec needs of the crypto table: the cipher works in place (the
  length stays) and undoes itself under the same key and nonce, and the keyed hash
  succeeds with a 32-byte digest.
\<close>

definition crypto_ok :: "llarp_router \<Rightarrow> bool" where
  "crypto_ok r =
     ((\<forall>k n d. length (xchacha20 r k n d) = length d) \<and>
      (\<forall>k n d. xchacha20 r k n (xchacha20 r k n d) = d) \<and>
      (\<forall>k m. \<exists>d. hmac r k m = Some d \<and> length d = FragmentHashSize))"

text \<open>The body of a fragment as the receiver decrypts it, and its three fields.\<close>

definition open_body :: "llarp_router \<Rightarrow> bytes \<Rightarrow> bytes \<Rightarrow> bytes" where
  "open_body r key frag =
     xchacha20 r key (take FragmentNonceSize (drop FragmentHashSize frag))
       (take FragmentBodySize (drop FragmentOverheadSize frag))"

text \<open>
  The plaintext body \<^verbatim>\<open>EncryptThenHash\<close> builds before it encrypts: the two header
  words, the payload, and what \<^verbatim>\<open>Randomize\<close> left behind it.
\<close>

definition sealed_plain :: "(nat \<Rightarrow> byte) \<Rightarrow> bytes \<Rightarrow> nat \<Rightarrow> bool \<Rightarrow> bytes" where
  "sealed_plain rnd ptr sz isLast =
     htobe32buf (if isLast then 0 else 1) @ htobe32buf (of_nat sz) @ take sz ptr
       @ map rnd [64 + sz..<576]"

text \<open>The header fields and the payload of a fragment, read the way the receiver does.\<close>

definition frag_CONT_FLAG :: "llarp_router \<Rightarrow> bytes \<Rightarrow> bytes \<Rightarrow> 32 word" where
  "frag_CONT_FLAG r key f = bufbe32toh (open_body r key f)"

definition frag_LEN :: "llarp_router \<Rightarrow> bytes \<Rightarrow> bytes \<Rightarrow> nat" where
  "frag_LEN r key f = unat (bufbe32toh (drop 4 (open_body r key f)))"

definition frag_payload :: "llarp_router \<Rightarrow> bytes \<Rightarrow> bytes \<Rightarrow> bytes" where
  "frag_payload r key f = take (frag_LEN r key f) (drop 8 (open_body r key f))"

text \<open>Fragment \<open>f\<close> has the wire size and decrypts to the given flag and chunk.\<close>

definition fragment_carries :: "llarp_router \<Rightarrow> bytes \<Rightarrow> bytes \<Rightarrow> 32 word \<Rightarrow> bytes \<Rightarrow> bool" where
  "fragment_carries r key f flag chunk =
     (length f = FragmentBufferSize \<and> frag_CONT_FLAG r key f = flag
      \<and> frag_LEN r key f = length chunk \<and> frag_payload r key f = chunk)"

subsection \<open>An environment for running the model\<close>

text \<open>
  Stand-ins for the collaborators, used where a statement is evaluated at a concrete
  input. The cipher XORs every byte with a pad derived from key and nonce (so applying
  it twice restores the data, as a stream cipher does); the keyed hash is a 32-byte
  checksum of key and message; the LinkIntro decoder reads an 88-byte body as the two
  keys of the contact and the nonce; the contact's signature check accepts every
  contact whose public key is not all zero; the upper layer accepts every message that
  does not start with the byte 255.
\<close>

definition test_xchacha20 :: "bytes \<Rightarrow> bytes \<Rightarrow> bytes \<Rightarrow> bytes" where
  "test_xchacha20 key nonce data = map (\<lambda>x. x XOR (sum_list key + sum_list nonce)) data"

definition test_hmac :: "bytes \<Rightarrow> bytes \<Rightarrow> bytes option" where
  "test_hmac key m = Some (replicate 31 0 @ [sum_list key + sum_list m])"

definition test_BDecode :: "bytes \<Rightarrow> LinkIntroMessage option" where
  "test_BDecode b =
     (if length b = 88
      then Some \<lparr>rc = \<lparr>pubkey = take 32 b, enckey = take 32 (drop 32 b)\<rparr>, N = drop 64 b\<rparr>
      else None)"

definition test_handler :: "bytes \<Rightarrow> bool" where
  "test_handler m = (case m of [] \<Rightarrow> True | b # bs \<Rightarrow> b \<noteq> 255)"

definition test_router :: llarp_router where
  "test_router =
     \<lparr>xchacha20 = test_xchacha20,
      hmac = test_hmac,
      transport_dh_server = (\<lambda>other secret n. Some (replicate 32 (sum_list other + sum_list secret + sum_list n))),
      TransportSecretKey = replicate 32 3,
      LLARP_PROTO_VERSION = 1,
      BDecode = test_BDecode,
      HandleMessage = (\<lambda>m. pubkey (rc m) \<noteq> replicate 32 0),
      HandleRecvLinkMessageBuffer = test_handler\<rparr>"

definition test_rnds :: "nat \<Rightarrow> nat \<Rightarrow> byte" where
  "test_rnds k i = of_nat (k + i)"

text \<open>A LinkIntro frame: version, body length, body.\<close>

definition lim_frame :: "32 word \<Rightarrow> bytes \<Rightarrow> bytes" where
  "lim_frame version body = htobe32buf version @ htobe32buf (of_nat (length body)) @ body"

definition lim_body_signed :: bytes where
  "lim_body_signed = replicate 32 5 @ replicate 32 6 @ replicate 24 9"

definition lim_body_unsigned :: bytes where
  "lim_body_unsigned = replicate 32 0 @ replicate 32 6 @ replicate 24 9"

text \<open>The fragment \<open>b\<close> with bit \<open>j\<close> of byte \<open>i\<close> flipped.\<close>

definition flip_bit_at :: "bytes \<Rightarrow> nat \<Rightarrow> nat \<Rightarrow> bytes" where
  "flip_bit_at b i j = b[i := flip_bit j (b ! i)]"

text \<open>
  A fragment as a peer that holds the session key can put it on the wire: any 520-byte
  plaintext body under a nonce of its choice, encrypted and authenticated.
\<close>

definition peer_fragment :: "llarp_router \<Rightarrow> bytes \<Rightarrow> bytes \<Rightarrow> bytes \<Rightarrow> bytes" where
  "peer_fragment r key nonce plain =
     (let enc = xchacha20 r key nonce plain
      in case hmac r key (nonce @ enc) of None \<Rightarrow> [] | Some mac \<Rightarrow> mac @ nonce @ enc)"

text \<open>
  A ready session, a last fragment sealed for it that carries the message 1, 2, 3, and
  one that carries a message the upper layer of \<open>test_router\<close> rejects.
\<close>

definition example_session :: BaseSession where
  "example_session = ready_session 8192 (replicate 32 7)"

definition example_fragment :: bytes where
  "example_fragment =
     EncryptThenHash test_router example_session (test_rnds 0) (replicate 576 0)
       [1, 2, 3] (length [1, 2, 3 :: byte]) True"


text \<open>The send queue after a 2048-byte message is submitted on the example session.\<close>

definition sent_2048 :: "bytes list" where
  "sent_2048 =
     sendq (snd (QueueWriteBuffers test_router test_rnds 5 example_session (replicate 2048 9)))"

text \<open>A ready session with two fragments queued for sending.\<close>

definition two_queued :: BaseSession where
  "two_queued = (ready_session 8192 (replicate 32 7))
                  \<lparr>sendq := [replicate 576 170, replicate 576 187]\<rparr>"

section \<open>Properties\<close>

lemma state_ready_session [simp]: "state (ready_session m key) = eSessionReady"
  by (simp add: ready_session_def)

subsection \<open>Auxiliary facts\<close>

lemma Close_Close: "Close n2 (Close n1 s) = (Close n1 s)\<lparr>lastActive := n2\<rparr>"
  by (simp add: Close_def EnterState_def Alive_def Let_def)

lemma ssize_small: "- (2^63) \<le> i \<Longrightarrow> i < 2^63 \<Longrightarrow> ssize_t_of i = i"
  by (simp add: ssize_t_of_def)

lemma size_small: "0 \<le> i \<Longrightarrow> i < 2^64 \<Longrightarrow> size_t_of i = nat i"
  by (simp add: size_t_of_def)

lemma write_ll_bounds:
  assumes "utp_write_ok w"
  shows "0 \<le> fst (write_ll w s t b n) \<and> fst (write_ll w s t b n) \<le> int (min n (length b))"
  using assms by (auto simp: write_ll_def utp_write_ok_def) (metis length_take min.commute)

lemma body_step:
  fixes s :: BaseSession and t :: 't and w :: "'t \<Rightarrow> bytes \<Rightarrow> int \<times> 't"
  assumes ok: "utp_write_ok w" and inv: "sendq_inv s" and ne: "sendq s \<noteq> []"
  defines "off \<equiv> sendBufOffset s"
  defines "n \<equiv> fst (write_ll w s t (drop off (hd (sendq s))) (FragmentBufferSize - off))"
  shows "0 \<le> n \<and> n \<le> int (FragmentBufferSize - off)"
    and "n \<noteq> int (FragmentBufferSize - off) \<Longrightarrow>
           fst (PumpWrite_body w (s, t)) = s\<lparr>sendBufOffset := off + nat n, stalled := True\<rparr>"
    and "n = int (FragmentBufferSize - off) \<Longrightarrow>
           fst (PumpWrite_body w (s, t)) = s\<lparr>sendBufOffset := 0, sendq := tl (sendq s)\<rparr>"
proof -
  have off: "off < 576" using inv by (simp add: sendq_inv_def off_def frag_sizes)
  have hdlen: "length (hd (sendq s)) = 576" using inv ne by (cases "sendq s") (auto simp: sendq_inv_def frag_sizes)
  have e: "ssize_t_of (int FragmentBufferSize - int off) = int (FragmentBufferSize - off)"
    using off by (simp add: ssize_small frag_sizes)
  have e2: "size_t_of (int (FragmentBufferSize - off)) = FragmentBufferSize - off"
    using off by (simp add: size_small frag_sizes)
  show b: "0 \<le> n \<and> n \<le> int (FragmentBufferSize - off)"
    using write_ll_bounds[OF ok, of s t "drop off (hd (sendq s))" "FragmentBufferSize - off"] hdlen off
    by (simp add: n_def frag_sizes)
  have e3: "size_t_of (int off + n) = off + nat n"
    using b off by (simp add: size_small frag_sizes nat_add_distrib)
  show "n \<noteq> int (FragmentBufferSize - off) \<Longrightarrow>
           fst (PumpWrite_body w (s, t)) = s\<lparr>sendBufOffset := off + nat n, stalled := True\<rparr>"
    using e e2 e3 by (simp add: PumpWrite_body_def Let_def off_def[symmetric] n_def[symmetric])
  show "n = int (FragmentBufferSize - off) \<Longrightarrow>
           fst (PumpWrite_body w (s, t)) = s\<lparr>sendBufOffset := 0, sendq := tl (sendq s)\<rparr>"
    using e e2 e3 by (simp add: PumpWrite_body_def Let_def off_def[symmetric] n_def[symmetric])
qed

lemma body_inv:
  assumes ok: "utp_write_ok w" and inv: "sendq_inv (fst st)" and ne: "sendq (fst st) \<noteq> []"
  shows "sendq_inv (fst (PumpWrite_body w st))"
proof -
  obtain s t where st: "st = (s, t)" by (cases st)
  let ?off = "sendBufOffset s"
  let ?n = "fst (write_ll w s t (drop ?off (hd (sendq s))) (FragmentBufferSize - ?off))"
  note bs = body_step[OF ok, of s t] 
  have i: "sendq_inv s" and n: "sendq s \<noteq> []" using inv ne st by auto
  show ?thesis
  proof (cases "?n = int (FragmentBufferSize - ?off)")
    case True
    from bs(3)[OF i n True] i n show ?thesis
      by (cases "sendq s") (auto simp: st sendq_inv_def frag_sizes)
  next
    case False
    from bs(2)[OF i n False] bs(1)[OF i n] False i show ?thesis
      by (auto simp: st sendq_inv_def frag_sizes)
  qed
qed

lemma PumpWrite_inv:
  "utp_write_ok w \<Longrightarrow> sendq_inv (fst st) \<Longrightarrow> sendq_inv (fst (PumpWrite w st))"
proof (induction w st rule: PumpWrite.induct)
  case (1 w st)
  show ?case
  proof (cases "length (sendq (fst st)) > 0 \<and> \<not> stalled (fst st)")
    case True
    then have ne: "sendq (fst st) \<noteq> []" by auto
    have "sendq_inv (fst (PumpWrite_body w st))" using body_inv[OF "1.prems"(1) "1.prems"(2) ne] .
    with "1.IH"[OF True "1.prems"(1)] True show ?thesis
      by (subst PumpWrite.simps) simp
  next
    case False
    then show ?thesis using "1.prems" by (subst PumpWrite.simps) auto
  qed
qed

lemma PumpWrite_stalled: "stalled (fst st) \<Longrightarrow> PumpWrite w st = st"
  by (subst PumpWrite.simps) simp


lemma window_write_ok: "utp_write_ok window_write"
  by (simp add: utp_write_ok_def window_write_def)

lemma two_queued_inv: "sendq_inv two_queued"
  by (simp add: two_queued_def sendq_inv_def ready_session_def inbound_session_def
      EnterState_def Alive_def frag_sizes)

lemma length_htobe32buf [simp]: "length (htobe32buf v) = 4"
  by (simp add: htobe32buf_def)

lemma bufbe32toh_htobe32buf [simp]: "bufbe32toh (htobe32buf v @ rest) = v"
  unfolding bufbe32toh_def htobe32buf_def
  apply simp
  apply (rule bit_word_eqI)
  subgoal for n
    apply (cases "n < 8"; cases "n < 16"; cases "n < 24")
    apply (auto simp add: bit_simps)
    done
  done

lemma Recv_not_ready: "state s \<noteq> eSessionReady \<Longrightarrow> Recv r now s buf = (Some SessionNotReady, s)"
  by (simp add: Recv_def)

lemma state_Close [simp]: "state (Close now s) = eClose"
  by (simp add: Close_def EnterState_def Alive_def Let_def)

lemma RecvHandshake_frame:
  assumes len: "length body < 2 ^ 32" and ne: "body @ trailing \<noteq> []"
  shows "RecvHandshake r now s (lim_frame (LLARP_PROTO_VERSION r) body @ trailing) sk =
     (let s0 = s\<lparr>sock := Some sk\<rparr>
      in case BDecode r body of
           None \<Rightarrow> Close now s0
         | Some msg \<Rightarrow>
             if \<not> HandleMessage r msg then s0
             else
               let s1 = s0\<lparr>remoteRC := rc msg\<rparr>;
                   kx = DoKeyExchange (transport_dh_server r) now s1 (N msg)
                          (enckey (rc msg)) (TransportSecretKey r)
               in if \<not> fst kx then snd kx
                  else
                    let s3 = (if trailing \<noteq> []
                              then snd (Recv r now (snd kx) trailing)
                              else snd kx)
                    in EnterState now eSessionReady (s3\<lparr>gotLIM := True\<rparr>))"
proof -
  have u: "unat (word_of_nat (length body) :: 32 word) = length body"
    using len by (simp add: unat_of_nat)
  have gt: "0 < length body + length trailing"
    using ne by (cases body) auto
  show ?thesis
    using gt
    by (auto simp add: RecvHandshake_def Let_def lim_frame_def u split: option.split)
qed

lemma DoKeyExchange_state:
  "fst (DoKeyExchange dh now s n other secret) \<Longrightarrow>
     state (snd (DoKeyExchange dh now s n other secret)) = state s"
  by (auto simp: DoKeyExchange_def split: option.splits)

lemma BDecode_signed: "BDecode test_router lim_body_signed
   = Some \<lparr>rc = \<lparr>pubkey = replicate 32 5, enckey = replicate 32 6\<rparr>, N = replicate 24 9\<rparr>"
  by (simp add: test_router_def test_BDecode_def lim_body_signed_def)

lemma BDecode_unsigned: "BDecode test_router lim_body_unsigned
   = Some \<lparr>rc = \<lparr>pubkey = replicate 32 0, enckey = replicate 32 6\<rparr>, N = replicate 24 9\<rparr>"
  by (simp add: test_router_def test_BDecode_def lim_body_unsigned_def)

lemma replicate_5_ne_0: "replicate 32 (5 :: byte) \<noteq> replicate 32 0"
  by (simp add: replicate_eq_replicate)

lemma state_inbound [simp]: "state (inbound_session m now sk) = eLinkEstablished"
  by (simp add: inbound_session_def EnterState_def Alive_def)

lemma lim_signed_len: "length lim_body_signed = 88" "lim_body_signed \<noteq> []"
  by (simp_all add: lim_body_signed_def)

lemma lim_unsigned_len: "length lim_body_unsigned = 88" "lim_body_unsigned \<noteq> []"
  by (simp_all add: lim_body_unsigned_def)

lemma test_version [simp]: "LLARP_PROTO_VERSION test_router = 1"
  by (simp add: test_router_def)

lemma handshake_signed_state:
  "state (RecvHandshake test_router now s (lim_frame 1 lim_body_signed) sk) = eSessionReady"
  using RecvHandshake_frame [of lim_body_signed "[]" test_router now s sk]
  by (simp add: lim_signed_len BDecode_signed)
     (simp add: test_router_def replicate_5_ne_0 DoKeyExchange_def EnterState_def Alive_def Let_def)

lemma handshake_signed:
  "RecvHandshake test_router 10 (inbound_session 8192 0 4) (lim_frame 1 lim_body_signed) 4
     = (inbound_session 8192 0 4)
         \<lparr>remoteRC := \<lparr>pubkey = replicate 32 5, enckey = replicate 32 6\<rparr>,
          sessionKey := replicate 32 (sum_list (replicate 32 6) + sum_list (replicate 32 3)
                                       + sum_list (replicate 24 9)),
          gotLIM := True, state := eSessionReady, lastActive := 10,
          trace := [MapAddr (replicate 32 5),
                    LinkSessionEstablished \<lparr>pubkey = replicate 32 5, enckey = replicate 32 6\<rparr>]\<rparr>"
  using RecvHandshake_frame [of lim_body_signed "[]" test_router 10 "inbound_session 8192 0 4" 4]
  by (simp add: lim_signed_len BDecode_signed)
     (simp add: test_router_def replicate_5_ne_0 DoKeyExchange_def EnterState_def Alive_def
        inbound_session_def Let_def)

lemma Recv_full_short:
  "length ptr < FragmentBufferSize \<Longrightarrow> ptr \<noteq> [] \<Longrightarrow>
     Recv_full r s ptr = (None, s\<lparr>recvBuf := memcpy (recvBuf s) 0 ptr (length ptr),
                                     recvBufOffset := length ptr\<rparr>)"
  by (subst Recv_full.simps) simp

lemma length_sealed_plain: "sz \<le> 512 \<Longrightarrow> sz \<le> length ptr \<Longrightarrow> length (sealed_plain rnd ptr sz l) = 520"
  by (simp add: sealed_plain_def del: upt_rec_numeral)

lemma crypto_okD:
  assumes "crypto_ok r"
  shows "length (xchacha20 r k n d) = length d"
    and "xchacha20 r k n (xchacha20 r k n d) = d"
    and "\<exists>d. hmac r k m = Some d \<and> length d = 32"
  using assms by (auto simp: crypto_ok_def frag_sizes)

lemma EncryptThenHash_layout:
  assumes ok: "crypto_ok r" and st: "state s = eSessionReady"
    and lb: "length buf = FragmentBufferSize" and sz: "sz \<le> 512" and szp: "sz \<le> length ptr"
  shows "\<exists>mac. hmac r (sessionKey s)
                 (map rnd [32..<56] @ xchacha20 r (sessionKey s) (map rnd [32..<56])
                                        (sealed_plain rnd ptr sz isLast)) = Some mac
           \<and> length mac = 32
           \<and> EncryptThenHash r s rnd buf ptr sz isLast =
               mac @ map rnd [32..<56]
                 @ xchacha20 r (sessionKey s) (map rnd [32..<56]) (sealed_plain rnd ptr sz isLast)"
proof -
  let ?nonce = "map rnd [32..<56]"
  let ?plain = "sealed_plain rnd ptr sz isLast"
  let ?enc = "xchacha20 r (sessionKey s) ?nonce ?plain"
  have lp: "length ?plain = 520" using sz szp by (rule length_sealed_plain)
  have le: "length ?enc = 520" using crypto_okD(1)[OF ok] lp by simp
  obtain mac where mac: "hmac r (sessionKey s) (?nonce @ ?enc) = Some mac" "length mac = 32"
    using crypto_okD(3)[OF ok] by blast
  have b0: "Randomize rnd buf = map rnd [0..<576]"
    using lb by (simp add: Randomize_def frag_sizes del: upt_rec_numeral)
  have s3: "memcpy (memcpy (memcpy (map rnd [0..<576]) FragmentOverheadSize
                   (htobe32buf (if isLast then 0 else 1)) 4) (FragmentOverheadSize + 4) (htobe32buf (of_nat sz)) 4)
                 (FragmentOverheadSize + 8) ptr sz = map rnd [0..<56] @ ?plain"
    using sz szp by (simp add: memcpy_def frag_sizes min_def sealed_plain_def take_map drop_map del: upt_rec_numeral)
  have n3: "take FragmentNonceSize (drop FragmentHashSize (map rnd [0..<56] @ ?plain)) = ?nonce"
    by (simp add: frag_sizes take_map drop_map del: upt_rec_numeral)
  have p3: "take FragmentBodySize (drop FragmentOverheadSize (map rnd [0..<56] @ ?plain)) = ?plain"
    using lp by (simp add: frag_sizes del: upt_rec_numeral)
  have b4: "memcpy (map rnd [0..<56] @ ?plain) FragmentOverheadSize ?enc FragmentBodySize
            = map rnd [0..<56] @ ?enc"
    using lp le by (simp add: memcpy_def frag_sizes del: upt_rec_numeral)
  have h4: "take (length (map rnd [0..<56] @ ?enc) - FragmentHashSize)
              (drop FragmentHashSize (map rnd [0..<56] @ ?enc)) = ?nonce @ ?enc"
    using le by (simp add: frag_sizes drop_map del: upt_rec_numeral)
  have f: "memcpy (map rnd [0..<56] @ ?enc) 0 mac FragmentHashSize = mac @ ?nonce @ ?enc"
    using mac(2) by (simp add: memcpy_def frag_sizes drop_map del: upt_rec_numeral)
  have "EncryptThenHash r s rnd buf ptr sz isLast = mac @ ?nonce @ ?enc"
    unfolding EncryptThenHash_def Let_def b0 s3 n3 p3 b4 h4 using st mac(1) by (simp add: f del: upt_rec_numeral)
  with mac show ?thesis by blast
qed


lemma VerifyThenDecrypt_layout:
  assumes lm: "length mac = 32" and ln: "length nonce = 24" and le: "length enc = 520"
    and h: "hmac r (sessionKey s) (nonce @ enc) = Some mac'"
    and body: "body = xchacha20 r (sessionKey s) nonce enc" and lb: "length body = 520"
  shows "VerifyThenDecrypt r s (mac @ nonce @ enc @ rest) =
     (if mac \<noteq> mac' then (Some IntegrityFailed, s, mac @ nonce @ enc @ rest)
      else
        let lower = unat (bufbe32toh (drop 4 body));
            buf' = mac @ nonce @ body @ rest
        in if size_t_of (int lower + int (recvMsgOffset s)) > length (recvMsg s)
           then (Some FragmentTooBig, s, buf')
           else if 64 + lower > length buf' then (Some ReadOutOfBounds, s, buf')
           else
             let msg = memcpy (recvMsg s) (recvMsgOffset s) (drop 8 body @ rest) lower;
                 off = size_t_of (int (recvMsgOffset s) + int lower)
             in if bufbe32toh body = 0
                then (if HandleRecvLinkMessageBuffer r (take off msg) then None
                      else Some MessageRejected,
                      s\<lparr>recvMsg := msg, recvMsgOffset := 0\<rparr>, buf')
                else (None, s\<lparr>recvMsg := msg, recvMsgOffset := off\<rparr>, buf'))"
proof -
  have a: "take (FragmentBufferSize - FragmentHashSize) (drop FragmentHashSize (mac @ nonce @ enc @ rest))
           = nonce @ enc"
    using lm ln le by (simp add: frag_sizes)
  have b: "take FragmentHashSize (mac @ nonce @ enc @ rest) = mac"
    using lm by (simp add: frag_sizes)
  have c: "take FragmentNonceSize (drop FragmentHashSize (mac @ nonce @ enc @ rest)) = nonce"
    using lm ln by (simp add: frag_sizes)
  have d: "take (FragmentBufferSize - FragmentOverheadSize)
             (drop FragmentOverheadSize (mac @ nonce @ enc @ rest)) = enc"
    using lm ln le by (simp add: frag_sizes)
  show ?thesis
  proof (cases "mac = mac'")
    case False
    then show ?thesis
      unfolding VerifyThenDecrypt_def a b c d h option.case by simp
  next
    case True
    have h': "hmac r (sessionKey s) (nonce @ enc) = Some mac" using h True by simp
    have "VerifyThenDecrypt r s (mac @ nonce @ enc @ rest) =
       (let lower = unat (bufbe32toh (drop 4 body));
            buf' = mac @ nonce @ body @ rest
        in if size_t_of (int lower + int (recvMsgOffset s)) > length (recvMsg s)
           then (Some FragmentTooBig, s, buf')
           else if 64 + lower > length buf' then (Some ReadOutOfBounds, s, buf')
           else
             let msg = memcpy (recvMsg s) (recvMsgOffset s) (drop 8 body @ rest) lower;
                 off = size_t_of (int (recvMsgOffset s) + int lower)
             in if bufbe32toh body = 0
                then (if HandleRecvLinkMessageBuffer r (take off msg) then None
                      else Some MessageRejected,
                      s\<lparr>recvMsg := msg, recvMsgOffset := 0\<rparr>, buf')
                else (None, s\<lparr>recvMsg := msg, recvMsgOffset := off\<rparr>, buf'))"
      unfolding VerifyThenDecrypt_def a b c d h' body [symmetric] option.case
      using lb lm ln le by (simp add: llarp_buffer_read_uint32_def Let_def memcpy_def frag_sizes add.commute)
    then show ?thesis using True by simp
  qed
qed


lemma sealed_plain_fields:
  assumes "sz \<le> 512"
  shows "bufbe32toh (sealed_plain rnd ptr sz l) = (if l then 0 else 1)"
    and "unat (bufbe32toh (drop 4 (sealed_plain rnd ptr sz l))) = sz"
    and "drop 8 (sealed_plain rnd ptr sz l) = take sz ptr @ map rnd [64 + sz..<576]"
  using assms by (simp_all add: sealed_plain_def unat_of_nat del: upt_rec_numeral)

lemma VerifyThenDecrypt_sealed:
  assumes ok: "crypto_ok r" and tx: "state tx = eSessionReady"
    and key: "sessionKey rx = sessionKey tx"
    and lb: "length buf = FragmentBufferSize"
    and sz: "sz \<le> 512" and szp: "sz \<le> length ptr"
    and inv: "recvMsgOffset rx \<le> length (recvMsg rx)" and fit: "length (recvMsg rx) < 2 ^ 63"
  shows "\<exists>buf'. bufbe32toh (drop FragmentOverheadSize buf') = (if isLast then 0 else 1)
      \<and> VerifyThenDecrypt r rx (EncryptThenHash r tx rnd buf ptr sz isLast @ rest) =
     (if recvMsgOffset rx + sz > length (recvMsg rx) then (Some FragmentTooBig, rx, buf')
      else
        let msg = take (recvMsgOffset rx) (recvMsg rx) @ take sz ptr
                    @ drop (recvMsgOffset rx + sz) (recvMsg rx)
        in if isLast
           then (if HandleRecvLinkMessageBuffer r
                      (take (recvMsgOffset rx) (recvMsg rx) @ take sz ptr)
                 then None else Some MessageRejected,
                 rx\<lparr>recvMsg := msg, recvMsgOffset := 0\<rparr>, buf')
           else (None, rx\<lparr>recvMsg := msg, recvMsgOffset := recvMsgOffset rx + sz\<rparr>, buf'))"
proof -
  let ?nonce = "map rnd [32..<56]"
  let ?plain = "sealed_plain rnd ptr sz isLast"
  let ?enc = "xchacha20 r (sessionKey tx) ?nonce ?plain"
  let ?off = "recvMsgOffset rx"
  obtain mac where mac: "hmac r (sessionKey tx) (?nonce @ ?enc) = Some mac" "length mac = 32"
    and frag: "EncryptThenHash r tx rnd buf ptr sz isLast = mac @ ?nonce @ ?enc"
    using EncryptThenHash_layout [OF ok tx lb sz szp, of rnd isLast] by blast
  have lp: "length ?plain = 520" using sz szp by (rule length_sealed_plain)
  have le: "length ?enc = 520" using crypto_okD(1)[OF ok] lp by simp
  have dec: "?plain = xchacha20 r (sessionKey rx) ?nonce ?enc"
    using crypto_okD(2)[OF ok] key by simp
  have ln: "length ?nonce = 24" by simp
  have h: "hmac r (sessionKey rx) (?nonce @ ?enc) = Some mac" using mac(1) key by simp
  note V = VerifyThenDecrypt_layout [OF mac(2) ln le h dec lp, of rest]
  note F = sealed_plain_fields [OF sz, of rnd ptr isLast]
  have s1: "size_t_of (int sz + int ?off) = sz + ?off"
    using sz inv fit by (simp add: size_small)
  have s2: "size_t_of (int ?off + int sz) = ?off + sz"
    using sz inv fit by (simp add: size_small)
  have rd: "\<not> 64 + sz > length (mac @ ?nonce @ ?plain @ rest)"
    using sz mac(2) lp by simp
  have m: "memcpy (recvMsg rx) ?off (drop 8 ?plain @ rest) sz
           = take ?off (recvMsg rx) @ take sz ptr @ drop (?off + sz) (recvMsg rx)"
    using szp by (simp add: memcpy_def F(3) del: upt_rec_numeral)
  have t: "take (?off + sz) (take ?off (recvMsg rx) @ take sz ptr @ drop (?off + sz) (recvMsg rx))
           = take ?off (recvMsg rx) @ take sz ptr"
    using inv szp by (simp add: min_def)
  have fl: "bufbe32toh (drop FragmentOverheadSize (mac @ ?nonce @ ?plain @ rest)) = (if isLast then 0 else 1)"
    using mac(2) lp by (simp add: frag_sizes sealed_plain_def del: upt_rec_numeral)
  have "VerifyThenDecrypt r rx (EncryptThenHash r tx rnd buf ptr sz isLast @ rest) =
     (if ?off + sz > length (recvMsg rx) then (Some FragmentTooBig, rx, mac @ ?nonce @ ?plain @ rest)
      else
        let msg = take ?off (recvMsg rx) @ take sz ptr @ drop (?off + sz) (recvMsg rx)
        in if isLast
           then (if HandleRecvLinkMessageBuffer r (take ?off (recvMsg rx) @ take sz ptr)
                 then None else Some MessageRejected,
                 rx\<lparr>recvMsg := msg, recvMsgOffset := 0\<rparr>, mac @ ?nonce @ ?plain @ rest)
           else (None, rx\<lparr>recvMsg := msg, recvMsgOffset := ?off + sz\<rparr>, mac @ ?nonce @ ?plain @ rest))"
    unfolding frag append_assoc V Let_def F(1) F(2) s1 s2 m t
    using rd by (auto simp: add.commute)
  with fl show ?thesis by blast
qed


lemma crypto_ok_test: "crypto_ok test_router"
  by (simp add: crypto_ok_def test_router_def test_xchacha20_def test_hmac_def frag_sizes
      comp_def xor.assoc)

lemma ready_session_fields [simp]:
  "recvMsgOffset (ready_session m key) = 0"
  "recvBufOffset (ready_session m key) = 0"
  "length (recvMsg (ready_session m key)) = m"
  "recvMsg (ready_session m key) = replicate m 0"
  "sessionKey (ready_session m key) = key"
  by (simp_all add: ready_session_def inbound_session_def EnterState_def Alive_def)

lemma flip_bit_byte_neq: "j < 8 \<Longrightarrow> flip_bit j (x :: byte) \<noteq> x"
proof
  assume j: "j < 8" and e: "flip_bit j x = x"
  have "bit (flip_bit j x) j = (\<not> bit x j)"
    using j by (simp add: bit_flip_bit_iff)
  with e show False by simp
qed

lemma VerifyThenDecrypt_mac_mismatch:
  assumes "hmac r (sessionKey s)
             (take (FragmentBufferSize - FragmentHashSize) (drop FragmentHashSize buf)) = Some d"
    and "take FragmentHashSize buf \<noteq> d"
  shows "VerifyThenDecrypt r s buf = (Some IntegrityFailed, s, buf)"
  using assms by (simp add: VerifyThenDecrypt_def)

lemma sealed_mac:
  assumes ok: "crypto_ok r" and st: "state s = eSessionReady"
    and lb: "length buf = FragmentBufferSize" and sz: "sz \<le> 512" and szp: "sz \<le> length ptr"
  shows "length (EncryptThenHash r s rnd buf ptr sz isLast) = 576"
    and "hmac r (sessionKey s) (drop 32 (EncryptThenHash r s rnd buf ptr sz isLast))
           = Some (take 32 (EncryptThenHash r s rnd buf ptr sz isLast))"
proof -
  let ?nonce = "map rnd [32..<56]"
  let ?enc = "xchacha20 r (sessionKey s) ?nonce (sealed_plain rnd ptr sz isLast)"
  obtain mac where mac: "hmac r (sessionKey s) (?nonce @ ?enc) = Some mac" "length mac = 32"
    and frag: "EncryptThenHash r s rnd buf ptr sz isLast = mac @ ?nonce @ ?enc"
    using EncryptThenHash_layout [OF ok st lb sz szp, of rnd isLast] by blast
  have le: "length ?enc = 520"
    using crypto_okD(1)[OF ok] length_sealed_plain [OF sz szp] by simp
  show "length (EncryptThenHash r s rnd buf ptr sz isLast) = 576"
    using mac(2) le by (simp add: frag)
  show "hmac r (sessionKey s) (drop 32 (EncryptThenHash r s rnd buf ptr sz isLast))
           = Some (take 32 (EncryptThenHash r s rnd buf ptr sz isLast))"
    using mac by (simp add: frag)
qed

lemma sum_list_update_group:
  "i < length xs \<Longrightarrow> sum_list (xs[i := v]) = sum_list xs - xs ! i + (v :: 'a :: ab_group_add)"
  by (induction xs arbitrary: i) (auto split: nat.splits)

lemma test_hmac_update_neq:
  assumes "i < length m" and "v \<noteq> m ! i"
  shows "hmac test_router k (m[i := v]) \<noteq> hmac test_router k m"
  using assms by (simp add: test_router_def test_hmac_def sum_list_update_group)

lemma example_session_simps [simp]:
  "state example_session = eSessionReady"
  "sessionKey example_session = replicate 32 7"
  "recvMsgOffset example_session = 0"
  "recvBufOffset example_session = 0"
  "length (recvMsg example_session) = 8192"
  by (simp_all add: example_session_def)

lemma example_fragment_length: "length example_fragment = 576"
  unfolding example_fragment_def
  by (rule sealed_mac(1) [OF crypto_ok_test]) (simp_all add: frag_sizes)

lemma open_body_sealed:
  assumes ok: "crypto_ok r" and st: "state s = eSessionReady"
    and lb: "length buf = FragmentBufferSize" and sz: "sz \<le> 512" and szp: "sz \<le> length ptr"
  shows "open_body r (sessionKey s) (EncryptThenHash r s rnd buf ptr sz isLast @ rest)
         = sealed_plain rnd ptr sz isLast"
proof -
  let ?nonce = "map rnd [32..<56]"
  let ?enc = "xchacha20 r (sessionKey s) ?nonce (sealed_plain rnd ptr sz isLast)"
  obtain mac where mac: "length mac = 32"
    and frag: "EncryptThenHash r s rnd buf ptr sz isLast = mac @ ?nonce @ ?enc"
    using EncryptThenHash_layout [OF ok st lb sz szp, of rnd isLast] by blast
  have le: "length ?enc = 520"
    using crypto_okD(1)[OF ok] length_sealed_plain [OF sz szp] by simp
  show ?thesis
    unfolding open_body_def frag using mac le crypto_okD(2)[OF ok]
    by (simp add: frag_sizes del: upt_rec_numeral)
qed





lemma seal_carries:
  assumes ok: "crypto_ok r" and st: "state s = eSessionReady"
    and lb: "length buf = FragmentBufferSize" and sz: "sz \<le> 512" and szp: "sz \<le> length ptr"
  shows "fragment_carries r (sessionKey s) (EncryptThenHash r s rnd buf ptr sz isLast)
           (if isLast then 0 else 1) (take sz ptr)"
proof -
  have O: "open_body r (sessionKey s) (EncryptThenHash r s rnd buf ptr sz isLast)
           = sealed_plain rnd ptr sz isLast"
    using open_body_sealed [OF ok st lb sz szp, of rnd isLast "[]"] by simp
  note F = sealed_plain_fields [OF sz, of rnd ptr isLast]
  note M = sealed_mac(1) [OF ok st lb sz szp, of rnd isLast]
  have a: "length (EncryptThenHash r s rnd buf ptr sz isLast) = FragmentBufferSize"
    using M by (simp add: frag_sizes)
  have b: "frag_CONT_FLAG r (sessionKey s) (EncryptThenHash r s rnd buf ptr sz isLast)
           = (if isLast then 0 else 1)"
    unfolding frag_CONT_FLAG_def O by (rule F(1))
  have c: "frag_LEN r (sessionKey s) (EncryptThenHash r s rnd buf ptr sz isLast) = sz"
    unfolding frag_LEN_def O by (rule F(2))
  have d: "frag_payload r (sessionKey s) (EncryptThenHash r s rnd buf ptr sz isLast) = take sz ptr"
    unfolding frag_payload_def c O F(3) using szp by (simp del: upt_rec_numeral)
  show ?thesis
    unfolding fragment_carries_def a b c d using szp by simp
qed

lemma ceil_step:
  assumes "0 < len"
  shows "(len + 511) div 512 = Suc ((len - min 512 len + 511) div (512 :: nat))"
proof (cases "len \<le> 512")
  case True
  have "(len + 511) div 512 = 1"
    by (rule div_nat_eqI) (use assms True in simp_all)
  moreover have "(len - min 512 len + 511) div 512 = 0"
    using True by simp
  ultimately show ?thesis by simp
next
  case False
  then obtain k where k: "len = k + 512"
    by (metis add.commute le_add_diff_inverse nat_le_linear)
  have "(k + 512 + 511) div 512 = Suc ((k + 511) div 512)"
    using div_add_self2 [of 512 "k + 511"] by (simp add: add.commute add.left_commute)
  then show ?thesis using k by (simp add: min_def)
qed

lemma loop_nil: "QueueWriteBuffers_loop r rnds k s [] = s"
  by (subst QueueWriteBuffers_loop.simps) simp

lemma loop_step:
  "cur \<noteq> [] \<Longrightarrow>
   QueueWriteBuffers_loop r rnds k s cur =
   QueueWriteBuffers_loop r rnds (Suc k)
     (s\<lparr>sendq := sendq s @
         [EncryptThenHash r s (rnds k) (replicate FragmentBufferSize 0) cur
            (min 512 (length cur)) (length cur - min 512 (length cur) = 0)]\<rparr>)
     (drop (min 512 (length cur)) cur)"
  by (subst QueueWriteBuffers_loop.simps) (simp add: Let_def FragmentBodyPayloadSize_def)

lemma loop_carries:
  assumes ok: "crypto_ok r"
  shows "state s = eSessionReady \<Longrightarrow>
         \<exists>new. QueueWriteBuffers_loop r rnds k s cur = s\<lparr>sendq := sendq s @ new\<rparr>
            \<and> length new = (length cur + 511) div 512
            \<and> (\<forall>i < length new.
                  fragment_carries r (sessionKey s) (new ! i)
                    (if Suc i = length new then 0 else 1) (take 512 (drop (512 * i) cur)))"
proof (induction "length cur" arbitrary: cur k s rule: less_induct)
  case less
  show ?case
  proof (cases "cur = []")
    case True
    then show ?thesis by (simp add: loop_nil)
  next
    case False
    let ?n = "min 512 (length cur)"
    let ?frag = "EncryptThenHash r s (rnds k) (replicate FragmentBufferSize 0) cur ?n
                   (length cur - ?n = 0)"
    let ?s1 = "s\<lparr>sendq := sendq s @ [?frag]\<rparr>"
    have pos: "0 < length cur" using False by simp
    have shorter: "length (drop ?n cur) < length cur" using pos by simp
    have st1: "state ?s1 = eSessionReady" using less.prems by simp
    obtain new' where
      L: "QueueWriteBuffers_loop r rnds (Suc k) ?s1 (drop ?n cur) = ?s1\<lparr>sendq := sendq ?s1 @ new'\<rparr>"
      and N: "length new' = (length (drop ?n cur) + 511) div 512"
      and C: "\<forall>i < length new'.
                  fragment_carries r (sessionKey ?s1) (new' ! i)
                    (if Suc i = length new' then 0 else 1)
                    (take 512 (drop (512 * i) (drop ?n cur)))"
      using less.hyps [OF shorter st1, of "Suc k"] by blast
    have F: "fragment_carries r (sessionKey s) ?frag (if length cur - ?n = 0 then 0 else 1)
               (take ?n cur)"
      by (rule seal_carries [OF ok less.prems]) simp_all
    have tk: "take ?n cur = take 512 cur" by (simp add: min_def)
    have len: "length (?frag # new') = (length cur + 511) div 512"
      using N ceil_step [OF pos] by simp
    have last_iff: "(length cur - ?n = 0) \<longleftrightarrow> (length new' = 0)"
      unfolding N by (auto simp: min_def div_eq_0_iff)
    have eq: "QueueWriteBuffers_loop r rnds k s cur = s\<lparr>sendq := sendq s @ (?frag # new')\<rparr>"
      unfolding loop_step [OF False] L by simp
    have all: "fragment_carries r (sessionKey s) ((?frag # new') ! i)
                 (if Suc i = length (?frag # new') then 0 else 1) (take 512 (drop (512 * i) cur))"
      if i: "i < length (?frag # new')" for i
    proof (cases i)
      case 0
      then show ?thesis using F last_iff tk by (auto simp del: min_less_iff_conj)
    next
      case (Suc j)
      then have j: "j < length new'" using i by simp
      then have "length new' \<noteq> 0" by auto
      then have big: "?n = 512" using last_iff by (auto simp: min_def split: if_splits)
      have d: "drop (512 * j) (drop ?n cur) = drop (512 * Suc j) cur"
        unfolding big by (simp add: add.commute)
      have "fragment_carries r (sessionKey s) (new' ! j)
                    (if Suc j = length new' then 0 else 1)
                    (take 512 (drop (512 * j) (drop ?n cur)))"
        using C j by simp
      then show ?thesis unfolding d Suc by simp
    qed
    show ?thesis using eq len all by blast
  qed
qed

lemma VerifyThenDecrypt_sealed_opened:
  assumes ok: "crypto_ok r" and tx: "state tx = eSessionReady"
    and key: "sessionKey rx = sessionKey tx"
    and lb: "length buf = FragmentBufferSize"
    and sz: "sz \<le> 512" and szp: "sz \<le> length ptr"
  shows "fst (VerifyThenDecrypt r rx (EncryptThenHash r tx rnd buf ptr sz isLast @ rest))
           \<notin> {Some KeyedHashFailed, Some IntegrityFailed, Some HeaderReadFailed}"
    and "snd (snd (VerifyThenDecrypt r rx (EncryptThenHash r tx rnd buf ptr sz isLast @ rest)))
           = take FragmentOverheadSize (EncryptThenHash r tx rnd buf ptr sz isLast)
               @ sealed_plain rnd ptr sz isLast @ rest"
proof -
  let ?nonce = "map rnd [32..<56]"
  let ?plain = "sealed_plain rnd ptr sz isLast"
  let ?enc = "xchacha20 r (sessionKey tx) ?nonce ?plain"
  obtain mac where mac: "hmac r (sessionKey tx) (?nonce @ ?enc) = Some mac" "length mac = 32"
    and frag: "EncryptThenHash r tx rnd buf ptr sz isLast = mac @ ?nonce @ ?enc"
    using EncryptThenHash_layout [OF ok tx lb sz szp, of rnd isLast] by blast
  have lp: "length ?plain = 520" using sz szp by (rule length_sealed_plain)
  have le: "length ?enc = 520" using crypto_okD(1)[OF ok] lp by simp
  have dec: "?plain = xchacha20 r (sessionKey rx) ?nonce ?enc"
    using crypto_okD(2)[OF ok] key by simp
  have ln: "length ?nonce = 24" by simp
  have h: "hmac r (sessionKey rx) (?nonce @ ?enc) = Some mac" using mac(1) key by simp
  note V = VerifyThenDecrypt_layout [OF mac(2) ln le h dec lp, of rest]
  have t: "take FragmentOverheadSize (mac @ ?nonce @ ?enc) = mac @ ?nonce"
    using mac(2) by (simp add: frag_sizes del: upt_rec_numeral)
  show "fst (VerifyThenDecrypt r rx (EncryptThenHash r tx rnd buf ptr sz isLast @ rest))
           \<notin> {Some KeyedHashFailed, Some IntegrityFailed, Some HeaderReadFailed}"
    unfolding frag append_assoc V Let_def by simp
  show "snd (snd (VerifyThenDecrypt r rx (EncryptThenHash r tx rnd buf ptr sz isLast @ rest)))
           = take FragmentOverheadSize (EncryptThenHash r tx rnd buf ptr sz isLast)
               @ sealed_plain rnd ptr sz isLast @ rest"
    unfolding frag t unfolding append_assoc V Let_def by simp
qed


lemma PumpWrite_unfold:
  "PumpWrite w st =
     (if sendq (fst st) \<noteq> [] \<and> \<not> stalled (fst st) then PumpWrite w (PumpWrite_body w st) else st)"
  by (subst PumpWrite.simps) simp

lemma PumpWrite_body_sendq:
  "sendq (fst (PumpWrite_body w st)) = sendq (fst st)
   \<or> sendq (fst (PumpWrite_body w st)) = tl (sendq (fst st))"
  by (simp add: PumpWrite_body_def Let_def)

lemma PumpWrite_exit:
  "sendq (fst (PumpWrite w st)) = [] \<or> stalled (fst (PumpWrite w st))"
proof (induction w st rule: PumpWrite.induct)
  case (1 w st)
  show ?case
  proof (cases "length (sendq (fst st)) > 0 \<and> \<not> stalled (fst st)")
    case True
    with "1.IH" show ?thesis by (subst PumpWrite.simps, subst (2) PumpWrite.simps) simp
  next
    case False
    then show ?thesis by (subst PumpWrite.simps, subst (2) PumpWrite.simps) auto
  qed
qed

lemma PumpWrite_suffix:
  "\<exists>k. sendq (fst (PumpWrite w st)) = drop k (sendq (fst st))"
proof (induction w st rule: PumpWrite.induct)
  case (1 w st)
  show ?case
  proof (cases "length (sendq (fst st)) > 0 \<and> \<not> stalled (fst st)")
    case True
    from "1.IH" [OF True] obtain k where
      k: "sendq (fst (PumpWrite w (PumpWrite_body w st))) = drop k (sendq (fst (PumpWrite_body w st)))"
      by blast
    have e: "PumpWrite w st = PumpWrite w (PumpWrite_body w st)"
      using True by (subst PumpWrite.simps) simp
    from PumpWrite_body_sendq [of w st] show ?thesis
    proof
      assume "sendq (fst (PumpWrite_body w st)) = sendq (fst st)"
      then show ?thesis using k e by auto
    next
      assume "sendq (fst (PumpWrite_body w st)) = tl (sendq (fst st))"
      then have "sendq (fst (PumpWrite w st)) = drop (Suc k) (sendq (fst st))"
        using k e by (simp add: drop_Suc)
      then show ?thesis by blast
    qed
  next
    case False
    then have "PumpWrite w st = st" by (subst PumpWrite.simps) auto
    then have "sendq (fst (PumpWrite w st)) = drop 0 (sendq (fst st))" by simp
    then show ?thesis by blast
  qed
qed


lemma PumpWrite_turns_unfold:
  "PumpWrite_turns w st =
     (if sendq (fst st) \<noteq> [] \<and> \<not> stalled (fst st)
      then st # PumpWrite_turns w (PumpWrite_body w st) else [])"
  by (subst PumpWrite_turns.simps) simp

lemma PumpWrite_turns_Nil:
  "PumpWrite_turns w st = [] \<longleftrightarrow> sendq (fst st) = [] \<or> stalled (fst st)"
  by (subst PumpWrite_turns_unfold) simp

lemma PumpWrite_turns_hd: "PumpWrite_turns w st \<noteq> [] \<Longrightarrow> hd (PumpWrite_turns w st) = st"
  by (subst PumpWrite_turns_unfold, subst (asm) PumpWrite_turns_unfold) (simp split: if_splits)

lemma PumpWrite_turns_drop:
  "i < length (PumpWrite_turns w st) \<Longrightarrow>
     drop i (PumpWrite_turns w st) = PumpWrite_turns w (PumpWrite_turns w st ! i)"
proof (induction w st arbitrary: i rule: PumpWrite_turns.induct)
  case (1 w st)
  from "1.prems" have c: "length (sendq (fst st)) > 0 \<and> \<not> stalled (fst st)"
    by (subst (asm) PumpWrite_turns.simps) (simp split: if_splits)
  then have e: "PumpWrite_turns w st = st # PumpWrite_turns w (PumpWrite_body w st)"
    by (subst PumpWrite_turns.simps) simp
  show ?case
  proof (cases i)
    case 0
    then show ?thesis using e by simp
  next
    case (Suc j)
    with "1.prems" e have "j < length (PumpWrite_turns w (PumpWrite_body w st))" by simp
    from "1.IH" [OF c this] show ?thesis using e Suc by simp
  qed
qed

lemma PumpWrite_turns_result:
  "i < length (PumpWrite_turns w st) \<Longrightarrow> PumpWrite w (PumpWrite_turns w st ! i) = PumpWrite w st"
proof (induction w st arbitrary: i rule: PumpWrite_turns.induct)
  case (1 w st)
  from "1.prems" have c: "length (sendq (fst st)) > 0 \<and> \<not> stalled (fst st)"
    by (subst (asm) PumpWrite_turns.simps) (simp split: if_splits)
  then have e: "PumpWrite_turns w st = st # PumpWrite_turns w (PumpWrite_body w st)"
    by (subst PumpWrite_turns.simps) simp
  from c have p: "PumpWrite w st = PumpWrite w (PumpWrite_body w st)"
    by (subst PumpWrite.simps) simp
  show ?case
  proof (cases i)
    case 0
    then show ?thesis using e by simp
  next
    case (Suc j)
    with "1.prems" e have "j < length (PumpWrite_turns w (PumpWrite_body w st))" by simp
    from "1.IH" [OF c this] show ?thesis using e Suc p by simp
  qed
qed

lemma PumpWrite_turns_inv:
  "utp_write_ok w \<Longrightarrow> sendq_inv (fst st) \<Longrightarrow> u \<in> set (PumpWrite_turns w st) \<Longrightarrow>
     sendq_inv (fst u) \<and> sendq (fst u) \<noteq> [] \<and> \<not> stalled (fst u)"
proof (induction w st rule: PumpWrite_turns.induct)
  case (1 w st)
  from "1.prems"(3) have c: "length (sendq (fst st)) > 0 \<and> \<not> stalled (fst st)"
    by (subst (asm) PumpWrite_turns.simps) (simp split: if_splits)
  then have e: "PumpWrite_turns w st = st # PumpWrite_turns w (PumpWrite_body w st)"
    by (subst PumpWrite_turns.simps) simp
  from c have ne: "sendq (fst st) \<noteq> []" by simp
  from "1.prems"(3) e have "u = st \<or> u \<in> set (PumpWrite_turns w (PumpWrite_body w st))" by simp
  then show ?case
  proof
    assume "u = st"
    then show ?thesis using c "1.prems"(2) by simp
  next
    assume "u \<in> set (PumpWrite_turns w (PumpWrite_body w st))"
    from "1.IH" [OF c "1.prems"(1) body_inv [OF "1.prems"(1) "1.prems"(2) ne] this]
    show ?thesis .
  qed
qed

lemma PumpWrite_turn:
  fixes w :: "'t \<Rightarrow> bytes \<Rightarrow> int \<times> 't"
  assumes ok: "utp_write_ok w" and inv: "sendq_inv (fst st)"
    and i: "i < length (PumpWrite_turns w st)"
  defines "u \<equiv> PumpWrite_turns w st ! i"
  defines "off \<equiv> sendBufOffset (fst u)"
  defines "n \<equiv> fst (write_ll w (fst u) (snd u) (drop off (hd (sendq (fst u))))
                      (FragmentBufferSize - off))"
  shows "off < FragmentBufferSize" and "0 \<le> n" and "n \<le> int (FragmentBufferSize - off)"
    and "sendq (fst u) \<noteq> []" and "\<not> stalled (fst u)"
    and "n < int (FragmentBufferSize - off) \<Longrightarrow>
           sendBufOffset (fst (PumpWrite_body w u)) = off + nat n
           \<and> stalled (fst (PumpWrite_body w u))
           \<and> sendq (fst (PumpWrite_body w u)) = sendq (fst u)
           \<and> Suc i = length (PumpWrite_turns w st)"
    and "n = int (FragmentBufferSize - off) \<Longrightarrow>
           sendBufOffset (fst (PumpWrite_body w u)) = 0
           \<and> sendq (fst (PumpWrite_body w u)) = tl (sendq (fst u))
           \<and> \<not> stalled (fst (PumpWrite_body w u))"
    and "Suc i < length (PumpWrite_turns w st) \<Longrightarrow>
           PumpWrite_turns w st ! Suc i = PumpWrite_body w u"
    and "Suc i = length (PumpWrite_turns w st) \<Longrightarrow> PumpWrite w st = PumpWrite_body w u"
proof -
  let ?T = "PumpWrite_turns w st"
  have mem: "u \<in> set ?T" using i by (simp add: u_def)
  note I = PumpWrite_turns_inv [OF ok inv mem]
  from I have iu: "sendq_inv (fst u)" and ne: "sendq (fst u) \<noteq> []" and ns: "\<not> stalled (fst u)"
    by simp_all
  have up: "u = (fst u, snd u)" by simp
  note bs = body_step [OF ok iu ne, of "snd u", folded off_def, folded n_def, folded up]
  show "off < FragmentBufferSize" using iu by (simp add: sendq_inv_def off_def)
  show "0 \<le> n" "n \<le> int (FragmentBufferSize - off)" using bs(1) by simp_all
  show "sendq (fst u) \<noteq> []" by (rule ne)
  show "\<not> stalled (fst u)" by (rule ns)
  have d: "drop i ?T = u # PumpWrite_turns w (PumpWrite_body w u)"
    using PumpWrite_turns_drop [OF i] ne ns
    by (subst (asm) PumpWrite_turns_unfold) (simp add: u_def)
  have len: "length ?T = i + Suc (length (PumpWrite_turns w (PumpWrite_body w u)))"
  proof -
    have "length (drop i ?T) = Suc (length (PumpWrite_turns w (PumpWrite_body w u)))"
      using d by simp
    then show ?thesis using i by simp
  qed
  show "sendBufOffset (fst (PumpWrite_body w u)) = off + nat n
           \<and> stalled (fst (PumpWrite_body w u))
           \<and> sendq (fst (PumpWrite_body w u)) = sendq (fst u)
           \<and> Suc i = length ?T"
    if "n < int (FragmentBufferSize - off)"
  proof -
    have eq: "fst (PumpWrite_body w u) = (fst u)\<lparr>sendBufOffset := off + nat n, stalled := True\<rparr>"
      using bs(2) that by simp
    then have "stalled (fst (PumpWrite_body w u))" by simp
    then have "PumpWrite_turns w (PumpWrite_body w u) = []" by (simp add: PumpWrite_turns_Nil)
    with len eq show ?thesis by simp
  qed
  show "sendBufOffset (fst (PumpWrite_body w u)) = 0
           \<and> sendq (fst (PumpWrite_body w u)) = tl (sendq (fst u))
           \<and> \<not> stalled (fst (PumpWrite_body w u))"
    if "n = int (FragmentBufferSize - off)"
    using bs(3) that ns by simp
  show "?T ! Suc i = PumpWrite_body w u" if s: "Suc i < length ?T"
  proof -
    from s len have nn: "PumpWrite_turns w (PumpWrite_body w u) \<noteq> []" by auto
    have "?T ! Suc i = drop i ?T ! 1" using s by simp
    also have "\<dots> = hd (PumpWrite_turns w (PumpWrite_body w u))"
      using d nn by (simp add: hd_conv_nth)
    also have "\<dots> = PumpWrite_body w u" using nn by (rule PumpWrite_turns_hd)
    finally show ?thesis .
  qed
  show "PumpWrite w st = PumpWrite_body w u" if s: "Suc i = length ?T"
  proof -
    from s len have "PumpWrite_turns w (PumpWrite_body w u) = []" by simp
    then have "sendq (fst (PumpWrite_body w u)) = [] \<or> stalled (fst (PumpWrite_body w u))"
      by (simp add: PumpWrite_turns_Nil)
    then have "PumpWrite w (PumpWrite_body w u) = PumpWrite_body w u"
      by (subst PumpWrite.simps) auto
    moreover have "PumpWrite w u = PumpWrite w (PumpWrite_body w u)"
      using ne ns by (subst PumpWrite.simps) simp
    moreover have "PumpWrite w u = PumpWrite w st"
      unfolding u_def using i by (rule PumpWrite_turns_result)
    ultimately show ?thesis by simp
  qed
qed


lemma two_queued_fields:
  "sendq two_queued = [replicate 576 170, replicate 576 187]"
  "sendBufOffset two_queued = 0" "\<not> stalled two_queued" "sock two_queued = Some 4"
  by (simp_all add: two_queued_def ready_session_def inbound_session_def EnterState_def Alive_def)

















subsection \<open>The claims\<close>

text \<open>
  C1, as stated: opening a sealed fragment succeeds for every key, every payload of at
  most 512 bytes and every \<open>isLast\<close>. It does not on every receiver:
  \<^verbatim>\<open>VerifyThenDecrypt\<close> refuses a correctly sealed fragment when the reassembly buffer
  has no room for its payload (a 3-byte payload at offset 8190 of 8192), and it returns
  false for a correctly sealed last fragment when the upper layer rejects the message.
\<close>

theorem seal_open_roundtrip_counterexample:
  "length [1, 2, 3 :: byte] \<le> 512
   \<and> fst (VerifyThenDecrypt test_router (example_session\<lparr>recvMsgOffset := 8190\<rparr>)
            (EncryptThenHash test_router example_session (test_rnds 0) (replicate 576 0)
               [1, 2, 3] (length [1, 2, 3 :: byte]) True)) = Some FragmentTooBig
   \<and> length [255, 1 :: byte] \<le> 512
   \<and> fst (VerifyThenDecrypt test_router example_session
            (EncryptThenHash test_router example_session (test_rnds 0) (replicate 576 0)
               [255, 1] (length [255, 1 :: byte]) True)) = Some MessageRejected"
proof -
  have p: "length (replicate 576 (0 :: byte)) = FragmentBufferSize" by (simp add: frag_sizes)
  have a: "fst (VerifyThenDecrypt test_router (example_session\<lparr>recvMsgOffset := 8190\<rparr>)
            (EncryptThenHash test_router example_session (test_rnds 0) (replicate 576 0)
               [1, 2, 3] (length [1, 2, 3 :: byte]) True)) = Some FragmentTooBig"
    using VerifyThenDecrypt_sealed [OF crypto_ok_test example_session_simps(1) _ p,
        of "example_session\<lparr>recvMsgOffset := 8190\<rparr>" "length [1, 2, 3 :: byte]" "[1, 2, 3]"
           True "test_rnds 0" "[]"]
    by auto
  have b: "fst (VerifyThenDecrypt test_router example_session
            (EncryptThenHash test_router example_session (test_rnds 0) (replicate 576 0)
               [255, 1] (length [255, 1 :: byte]) True)) = Some MessageRejected"
    using VerifyThenDecrypt_sealed [OF crypto_ok_test example_session_simps(1) _ p,
        of example_session "length [255, 1 :: byte]" "[255, 1]" True "test_rnds 0" "[]"]
    by (auto simp: test_router_def test_handler_def)
  show ?thesis using a b by simp
qed

text \<open>
  C1, amended. A sender in state SessionReady seals a payload of at most 512 bytes with
  \<^verbatim>\<open>EncryptThenHash\<close>; a receiver with the same session key opens the fragment with
  \<^verbatim>\<open>VerifyThenDecrypt\<close> (whatever follows the fragment in the delivery). On every
  receiver the fragment passes the MAC check (the keyed hash of bytes [32..576) is the
  first 32 bytes, and the call fails neither at the hash, nor at the comparison, nor at
  the header read) and is decrypted in place to the original header and payload: the
  CONT_FLAG word is 0 exactly when the fragment was sealed as last, LEN is the payload
  length, and the payload bytes follow. Provided the reassembly buffer has room for the
  payload and, for a last fragment, the upper layer accepts the reassembled message, the
  call returns true, the payload bytes are exactly what is appended at
  \<open>recvMsgOffset\<close>, nothing else in the session changes, and the offset advances by
  the payload length (or is reset to 0 after a last fragment). Without room the call
  returns false and leaves the session as it was; when the upper layer rejects a last
  fragment's message the call returns false with the payload appended and the offset
  reset to 0.
\<close>

theorem seal_open_roundtrip:
  assumes ok: "crypto_ok r"
    and tx: "state tx = eSessionReady"
    and key: "sessionKey rx = sessionKey tx"
    and lb: "length buf = FragmentBufferSize"
    and sz: "length payload \<le> FragmentBodyPayloadSize"
  shows
    "(let frag = EncryptThenHash r tx rnd buf payload (length payload) isLast;
          res = VerifyThenDecrypt r rx (frag @ rest);
          rx' = fst (snd res);
          opened = snd (snd res);
          off = recvMsgOffset rx;
          msg = take off (recvMsg rx) @ payload
      in hmac r (sessionKey rx) (drop FragmentHashSize frag) = Some (take FragmentHashSize frag)
         \<and> fst res \<noteq> Some KeyedHashFailed \<and> fst res \<noteq> Some IntegrityFailed
         \<and> fst res \<noteq> Some HeaderReadFailed
         \<and> bufbe32toh (drop FragmentOverheadSize opened) = (if isLast then 0 else 1)
         \<and> (bufbe32toh (drop FragmentOverheadSize opened) = 0 \<longleftrightarrow> isLast)
         \<and> unat (bufbe32toh (drop (FragmentOverheadSize + 4) opened)) = length payload
         \<and> take (length payload) (drop (FragmentOverheadSize + 8) opened) = payload
         \<and> (off + length payload \<le> length (recvMsg rx) \<and> length (recvMsg rx) < 2 ^ 63
              \<and> (isLast \<longrightarrow> HandleRecvLinkMessageBuffer r msg) \<longrightarrow>
               fst res = None
               \<and> recvMsg rx' = take off (recvMsg rx) @ payload
                                  @ drop (off + length payload) (recvMsg rx)
               \<and> recvMsgOffset rx' = (if isLast then 0 else off + length payload)
               \<and> rx' = rx\<lparr>recvMsg := recvMsg rx', recvMsgOffset := recvMsgOffset rx'\<rparr>)
         \<and> (length (recvMsg rx) < off + length payload \<and> off \<le> length (recvMsg rx)
              \<and> length (recvMsg rx) < 2 ^ 63 \<longrightarrow>
               fst res = Some FragmentTooBig \<and> rx' = rx)
         \<and> (off + length payload \<le> length (recvMsg rx) \<and> length (recvMsg rx) < 2 ^ 63
              \<and> isLast \<and> \<not> HandleRecvLinkMessageBuffer r msg \<longrightarrow>
               fst res = Some MessageRejected
               \<and> rx' = rx\<lparr>recvMsg := take off (recvMsg rx) @ payload
                                        @ drop (off + length payload) (recvMsg rx),
                           recvMsgOffset := 0\<rparr>))"
proof -
  let ?frag = "EncryptThenHash r tx rnd buf payload (length payload) isLast"
  let ?res = "VerifyThenDecrypt r rx (?frag @ rest)"
  let ?off = "recvMsgOffset rx"
  let ?msg = "take ?off (recvMsg rx) @ payload"
  have sz': "length payload \<le> 512" using sz by (simp add: frag_sizes)
  note O = VerifyThenDecrypt_sealed_opened [OF ok tx key lb sz' order_refl, of rnd isLast rest]
  note M = sealed_mac [OF ok tx lb sz' order_refl, of rnd isLast]
  note F = sealed_plain_fields [OF sz', of rnd payload isLast]
  have lt: "length (take FragmentOverheadSize ?frag) = 56"
    using M(1) by (simp add: frag_sizes)
  have A: "hmac r (sessionKey rx) (drop FragmentHashSize ?frag) = Some (take FragmentHashSize ?frag)"
    using M(2) key by (simp add: frag_sizes)
  have B: "fst ?res \<noteq> Some KeyedHashFailed \<and> fst ?res \<noteq> Some IntegrityFailed
         \<and> fst ?res \<noteq> Some HeaderReadFailed"
    using O(1) by simp
  have d0: "drop FragmentOverheadSize (snd (snd ?res)) = sealed_plain rnd payload (length payload) isLast @ rest"
    unfolding O(2) using lt by (simp add: frag_sizes)
  have d4: "drop (FragmentOverheadSize + 4) (snd (snd ?res))
            = drop 4 (sealed_plain rnd payload (length payload) isLast) @ rest"
    unfolding O(2) using lt length_sealed_plain [OF sz' order_refl, of rnd isLast]
    by (simp add: frag_sizes)
  have d8: "drop (FragmentOverheadSize + 8) (snd (snd ?res))
            = drop 8 (sealed_plain rnd payload (length payload) isLast) @ rest"
    unfolding O(2) using lt length_sealed_plain [OF sz' order_refl, of rnd isLast]
    by (simp add: frag_sizes)
  have C1: "bufbe32toh (drop FragmentOverheadSize (snd (snd ?res))) = (if isLast then 0 else 1)"
    unfolding d0 by (simp add: sealed_plain_def del: upt_rec_numeral)
  have C2: "unat (bufbe32toh (drop (FragmentOverheadSize + 4) (snd (snd ?res)))) = length payload"
    unfolding d4 using sz' by (simp add: sealed_plain_def unat_of_nat del: upt_rec_numeral)
  have C3: "take (length payload) (drop (FragmentOverheadSize + 8) (snd (snd ?res))) = payload"
    unfolding d8 F(3) by (simp del: upt_rec_numeral)
  have C1': "bufbe32toh (drop FragmentOverheadSize (snd (snd ?res))) = 0 \<longleftrightarrow> isLast"
    unfolding C1 by simp
  have V: "\<exists>buf'. ?res =
     (if ?off + length payload > length (recvMsg rx) then (Some FragmentTooBig, rx, buf')
      else
        let msg = take ?off (recvMsg rx) @ take (length payload) payload
                    @ drop (?off + length payload) (recvMsg rx)
        in if isLast
           then (if HandleRecvLinkMessageBuffer r
                      (take ?off (recvMsg rx) @ take (length payload) payload)
                 then None else Some MessageRejected,
                 rx\<lparr>recvMsg := msg, recvMsgOffset := 0\<rparr>, buf')
           else (None, rx\<lparr>recvMsg := msg, recvMsgOffset := ?off + length payload\<rparr>, buf'))"
    if "?off \<le> length (recvMsg rx)" "length (recvMsg rx) < 2 ^ 63"
    using VerifyThenDecrypt_sealed [OF ok tx key lb sz' order_refl that, of isLast rnd rest]
    by blast
  have D: "fst ?res = None
               \<and> recvMsg (fst (snd ?res)) = take ?off (recvMsg rx) @ payload
                                  @ drop (?off + length payload) (recvMsg rx)
               \<and> recvMsgOffset (fst (snd ?res)) = (if isLast then 0 else ?off + length payload)
               \<and> fst (snd ?res) = rx\<lparr>recvMsg := recvMsg (fst (snd ?res)),
                                       recvMsgOffset := recvMsgOffset (fst (snd ?res))\<rparr>"
    if "?off + length payload \<le> length (recvMsg rx)" "length (recvMsg rx) < 2 ^ 63"
       "isLast \<longrightarrow> HandleRecvLinkMessageBuffer r ?msg"
  proof -
    have "?off \<le> length (recvMsg rx)" using that(1) by simp
    from V [OF this that(2)] obtain buf' where "?res =
     (if ?off + length payload > length (recvMsg rx) then (Some FragmentTooBig, rx, buf')
      else
        let msg = take ?off (recvMsg rx) @ take (length payload) payload
                    @ drop (?off + length payload) (recvMsg rx)
        in if isLast
           then (if HandleRecvLinkMessageBuffer r
                      (take ?off (recvMsg rx) @ take (length payload) payload)
                 then None else Some MessageRejected,
                 rx\<lparr>recvMsg := msg, recvMsgOffset := 0\<rparr>, buf')
           else (None, rx\<lparr>recvMsg := msg, recvMsgOffset := ?off + length payload\<rparr>, buf'))"
      by blast
    then show ?thesis using that by (cases isLast) (simp_all add: Let_def)
  qed
  have E: "fst ?res = Some FragmentTooBig \<and> fst (snd ?res) = rx"
    if "length (recvMsg rx) < ?off + length payload" "?off \<le> length (recvMsg rx)"
       "length (recvMsg rx) < 2 ^ 63"
    using V [OF that(2) that(3)] that(1) by auto
  have G: "fst ?res = Some MessageRejected
               \<and> fst (snd ?res) = rx\<lparr>recvMsg := take ?off (recvMsg rx) @ payload
                                        @ drop (?off + length payload) (recvMsg rx),
                           recvMsgOffset := 0\<rparr>"
    if "?off + length payload \<le> length (recvMsg rx)" "length (recvMsg rx) < 2 ^ 63"
       "isLast" "\<not> HandleRecvLinkMessageBuffer r ?msg"
  proof -
    have "?off \<le> length (recvMsg rx)" using that(1) by simp
    from V [OF this that(2)] obtain buf' where "?res =
     (if ?off + length payload > length (recvMsg rx) then (Some FragmentTooBig, rx, buf')
      else
        let msg = take ?off (recvMsg rx) @ take (length payload) payload
                    @ drop (?off + length payload) (recvMsg rx)
        in if isLast
           then (if HandleRecvLinkMessageBuffer r
                      (take ?off (recvMsg rx) @ take (length payload) payload)
                 then None else Some MessageRejected,
                 rx\<lparr>recvMsg := msg, recvMsgOffset := 0\<rparr>, buf')
           else (None, rx\<lparr>recvMsg := msg, recvMsgOffset := ?off + length payload\<rparr>, buf'))"
      by blast
    then show ?thesis using that by (simp add: Let_def)
  qed
  show ?thesis
    unfolding Let_def using A B C1 C1' C2 C3 D E G by blast
qed


theorem seal_open_roundtrip_witness:
  "crypto_ok test_router
   \<and> state (ready_session 8192 (replicate 32 7)) = eSessionReady
   \<and> length (replicate 576 (0 :: byte)) = FragmentBufferSize
   \<and> length [1, 2, 3 :: byte] \<le> FragmentBodyPayloadSize
   \<and> HandleRecvLinkMessageBuffer test_router [1, 2, 3]
   \<and> fst (VerifyThenDecrypt test_router (ready_session 8192 (replicate 32 7))
            (EncryptThenHash test_router (ready_session 8192 (replicate 32 7)) (test_rnds 0)
               (replicate 576 0) [1, 2, 3] (length [1, 2, 3 :: byte]) True)) = None
   \<and> take 3 (recvMsg (fst (snd (VerifyThenDecrypt test_router (ready_session 8192 (replicate 32 7))
            (EncryptThenHash test_router (ready_session 8192 (replicate 32 7)) (test_rnds 0)
               (replicate 576 0) [1, 2, 3] (length [1, 2, 3 :: byte]) True))))) = [1, 2, 3]
   \<and> recvMsgOffset (fst (snd (VerifyThenDecrypt test_router (ready_session 8192 (replicate 32 7))
            (EncryptThenHash test_router (ready_session 8192 (replicate 32 7)) (test_rnds 0)
               (replicate 576 0) [1, 2, 3] (length [1, 2, 3 :: byte]) False)))) = length [1, 2, 3 :: byte]
   \<and> take (length [1, 2, 3 :: byte]) (drop (FragmentOverheadSize + 8) (snd (snd (VerifyThenDecrypt test_router
            ((ready_session 8192 (replicate 32 7))\<lparr>recvMsgOffset := 8190\<rparr>)
            (EncryptThenHash test_router (ready_session 8192 (replicate 32 7)) (test_rnds 0)
               (replicate 576 0) [1, 2, 3] (length [1, 2, 3 :: byte]) True))))) = [1, 2, 3]"
proof -
  let ?rs = "ready_session 8192 (replicate 32 7)"
  have h: "HandleRecvLinkMessageBuffer test_router [1, 2, 3]"
    by (simp add: test_router_def test_handler_def)
  have a: "state ?rs = eSessionReady
     \<and> length (replicate 576 (0 :: byte)) = FragmentBufferSize
     \<and> length [1, 2, 3 :: byte] \<le> FragmentBodyPayloadSize"
    by (simp add: frag_sizes)
  note T = seal_open_roundtrip [where r = test_router and tx = ?rs and buf = "replicate 576 0"
      and payload = "[1, 2, 3]" and rnd = "test_rnds 0" and rest = "[]", OF crypto_ok_test,
      unfolded Let_def]
  have b: "fst (VerifyThenDecrypt test_router ?rs
            (EncryptThenHash test_router ?rs (test_rnds 0)
               (replicate 576 0) [1, 2, 3] (length [1, 2, 3 :: byte]) True)) = None
   \<and> take 3 (recvMsg (fst (snd (VerifyThenDecrypt test_router ?rs
            (EncryptThenHash test_router ?rs (test_rnds 0)
               (replicate 576 0) [1, 2, 3] (length [1, 2, 3 :: byte]) True))))) = [1, 2, 3]"
    using T [where rx = ?rs and isLast = True] h by (simp add: frag_sizes)
  have c: "recvMsgOffset (fst (snd (VerifyThenDecrypt test_router ?rs
            (EncryptThenHash test_router ?rs (test_rnds 0)
               (replicate 576 0) [1, 2, 3] (length [1, 2, 3 :: byte]) False)))) = length [1, 2, 3 :: byte]"
    using T [where rx = ?rs and isLast = False] by (simp add: frag_sizes)
  have d: "take (length [1, 2, 3 :: byte]) (drop (FragmentOverheadSize + 8) (snd (snd (VerifyThenDecrypt test_router (?rs\<lparr>recvMsgOffset := 8190\<rparr>)
            (EncryptThenHash test_router ?rs (test_rnds 0)
               (replicate 576 0) [1, 2, 3] (length [1, 2, 3 :: byte]) True))))) = [1, 2, 3]"
    using T [where rx = "?rs\<lparr>recvMsgOffset := 8190\<rparr>" and isLast = True]
    by (simp add: frag_sizes)
  show ?thesis using crypto_ok_test a h b c d by blast
qed


text \<open>
  C2. Authentication. Take a fragment sealed by \<^verbatim>\<open>EncryptThenHash\<close> and flip any one
  bit of its 576 bytes. Provided the keyed hash does not map the tampered bytes
  [32..576) and the original ones to the same digest (injectivity of the keyed hash on
  these two inputs; for a flip inside the MAC the two inputs are the same and nothing is
  assumed), \<^verbatim>\<open>VerifyThenDecrypt\<close> returns the integrity failure, before any decryption:
  the session, reassembly buffer included, and the bytes read are unchanged.
\<close>

theorem tampered_fragment_rejected:
  assumes ok: "crypto_ok r"
    and tx: "state tx = eSessionReady"
    and key: "sessionKey rx = sessionKey tx"
    and lb: "length buf = FragmentBufferSize"
    and sz: "sz \<le> FragmentBodyPayloadSize" and szp: "sz \<le> length ptr"
    and i: "i < FragmentBufferSize" and j: "j < 8"
    and inj: "inj_on (hmac r (sessionKey rx))
                {drop FragmentHashSize (EncryptThenHash r tx rnd buf ptr sz isLast),
                 drop FragmentHashSize
                   (flip_bit_at (EncryptThenHash r tx rnd buf ptr sz isLast) i j)}"
  shows "VerifyThenDecrypt r rx (flip_bit_at (EncryptThenHash r tx rnd buf ptr sz isLast) i j @ rest)
         = (Some IntegrityFailed, rx,
            flip_bit_at (EncryptThenHash r tx rnd buf ptr sz isLast) i j @ rest)"
proof -
  let ?frag = "EncryptThenHash r tx rnd buf ptr sz isLast"
  let ?bad = "flip_bit_at ?frag i j"
  have sz': "sz \<le> 512" using sz by (simp add: frag_sizes)
  note M = sealed_mac [OF ok tx lb sz' szp, of rnd isLast]
  have lf: "length ?frag = 576" by (rule M(1))
  have lbad: "length ?bad = 576" using lf by (simp add: flip_bit_at_def)
  have i': "i < 576" using i by (simp add: frag_sizes)
  have ne: "?bad \<noteq> ?frag"
  proof
    assume "?bad = ?frag"
    then have "?bad ! i = ?frag ! i" by simp
    then show False using i' lf flip_bit_byte_neq [OF j, of "?frag ! i"]
      by (simp add: flip_bit_at_def)
  qed
  have region: "take (FragmentBufferSize - FragmentHashSize) (drop FragmentHashSize (?bad @ rest))
                = drop 32 ?bad"
    using lbad by (simp add: frag_sizes)
  have head: "take FragmentHashSize (?bad @ rest) = take 32 ?bad"
    using lbad by (simp add: frag_sizes)
  obtain d where d: "hmac r (sessionKey rx) (drop 32 ?bad) = Some d"
    using crypto_okD(3)[OF ok] by blast
  have "take 32 ?bad \<noteq> d"
  proof (cases "i < 32")
    case True
    then have same: "drop 32 ?bad = drop 32 ?frag"
      by (simp add: flip_bit_at_def drop_update_cancel)
    then have "d = take 32 ?frag" using d M(2) key by simp
    moreover have "take 32 ?bad \<noteq> take 32 ?frag"
      using ne same by (metis append_take_drop_id)
    ultimately show ?thesis by simp
  next
    case False
    then have same: "take 32 ?bad = take 32 ?frag"
      by (simp add: flip_bit_at_def take_update_cancel)
    then have diff: "drop 32 ?bad \<noteq> drop 32 ?frag"
      using ne by (metis append_take_drop_id)
    have "hmac r (sessionKey rx) (drop 32 ?bad) \<noteq> hmac r (sessionKey rx) (drop 32 ?frag)"
      using inj diff by (auto simp: inj_on_def frag_sizes)
    then have "d \<noteq> take 32 ?frag" using d M(2) key by auto
    then show ?thesis using same by simp
  qed
  then show ?thesis
    using VerifyThenDecrypt_mac_mismatch [of r rx "?bad @ rest" d] d
    unfolding region head by (simp add: frag_sizes)
qed


theorem tampered_fragment_rejected_witness:
  "crypto_ok test_router
   \<and> inj_on (hmac test_router (sessionKey example_session))
        {drop FragmentHashSize example_fragment,
         drop FragmentHashSize (flip_bit_at example_fragment 10 0)}
   \<and> inj_on (hmac test_router (sessionKey example_session))
        {drop FragmentHashSize example_fragment,
         drop FragmentHashSize (flip_bit_at example_fragment 100 3)}
   \<and> VerifyThenDecrypt test_router example_session (flip_bit_at example_fragment 10 0)
       = (Some IntegrityFailed, example_session, flip_bit_at example_fragment 10 0)
   \<and> VerifyThenDecrypt test_router example_session (flip_bit_at example_fragment 100 3)
       = (Some IntegrityFailed, example_session, flip_bit_at example_fragment 100 3)"
proof -
  have a: "inj_on (hmac test_router (sessionKey example_session))
        {drop FragmentHashSize example_fragment,
         drop FragmentHashSize (flip_bit_at example_fragment 10 0)}"
    by (simp add: flip_bit_at_def frag_sizes drop_update_cancel)
  have "hmac test_router (replicate 32 7) ((drop 32 example_fragment)[68 := flip_bit 3 (example_fragment ! 100)])
        \<noteq> hmac test_router (replicate 32 7) (drop 32 example_fragment)"
    by (rule test_hmac_update_neq) (simp_all add: example_fragment_length flip_bit_byte_neq)
  then have b: "inj_on (hmac test_router (sessionKey example_session))
        {drop FragmentHashSize example_fragment,
         drop FragmentHashSize (flip_bit_at example_fragment 100 3)}"
    by (auto simp: flip_bit_at_def frag_sizes drop_update_swap)
  note T = tampered_fragment_rejected [OF crypto_ok_test, of example_session example_session
             "replicate 576 0" "length [1, 2, 3 :: byte]" "[1, 2, 3]" _ _ "test_rnds 0" True "[]",
             folded example_fragment_def]
  have c: "VerifyThenDecrypt test_router example_session (flip_bit_at example_fragment 10 0)
       = (Some IntegrityFailed, example_session, flip_bit_at example_fragment 10 0)"
    using T [of 10 0] a by (simp add: frag_sizes)
  have d: "VerifyThenDecrypt test_router example_session (flip_bit_at example_fragment 100 3)
       = (Some IntegrityFailed, example_session, flip_bit_at example_fragment 100 3)"
    using T [of 100 3] b by (simp add: frag_sizes)
  show ?thesis using crypto_ok_test a b c d by blast
qed


text \<open>
  C3. The claim: a fragment that passes the MAC check is refused when its LEN field
  exceeds 512. The code checks only \<open>LEN + recvMsgOffset\<close> against the size of the
  reassembly buffer. A peer's fragment with CONT_FLAG 1 and a LEN above 512 that still
  fits the reassembly buffer is accepted: \<open>LEN\<close> bytes are appended, the last
  \<open>LEN - 512\<close> of them taken from whatever follows the fragment in the caller's
  buffer, and \<open>recvMsgOffset\<close> advances by \<open>LEN\<close>; when fewer bytes follow, the
  copy reads past the end of the buffer.
\<close>

theorem VerifyThenDecrypt_accepts_long_LEN:
  assumes ok: "crypto_ok r"
    and ln: "length nonce = FragmentNonceSize"
    and lp: "length payload = FragmentBodyPayloadSize"
    and big: "FragmentBodyPayloadSize < len" and len32: "len < 2 ^ 32"
    and room: "recvMsgOffset s + len \<le> length (recvMsg s)"
    and fit: "length (recvMsg s) < 2 ^ 63"
  shows
    "(let frag = peer_fragment r (sessionKey s) nonce
                   (htobe32buf 1 @ htobe32buf (of_nat len) @ payload);
          res = VerifyThenDecrypt r s (frag @ rest)
      in length frag = FragmentBufferSize
         \<and> (len - FragmentBodyPayloadSize \<le> length rest \<longrightarrow>
              fst res = None
              \<and> fst (snd res) =
                  s\<lparr>recvMsg := take (recvMsgOffset s) (recvMsg s) @ payload
                                 @ take (len - FragmentBodyPayloadSize) rest
                                 @ drop (recvMsgOffset s + len) (recvMsg s),
                    recvMsgOffset := recvMsgOffset s + len\<rparr>)
         \<and> (len - FragmentBodyPayloadSize > length rest \<longrightarrow>
              fst res = Some ReadOutOfBounds))"
proof -
  let ?plain = "htobe32buf 1 @ htobe32buf (of_nat len) @ payload"
  let ?enc = "xchacha20 r (sessionKey s) nonce ?plain"
  let ?off = "recvMsgOffset s"
  obtain mac where mac: "hmac r (sessionKey s) (nonce @ ?enc) = Some mac" "length mac = 32"
    using crypto_okD(3)[OF ok] by blast
  have frag: "peer_fragment r (sessionKey s) nonce ?plain = mac @ nonce @ ?enc"
    using mac by (simp add: peer_fragment_def)
  have lpl: "length ?plain = 520" using lp by (simp add: frag_sizes)
  have le: "length ?enc = 520" using crypto_okD(1)[OF ok] lpl by simp
  have ln': "length nonce = 24" using ln by (simp add: frag_sizes)
  have dec: "?plain = xchacha20 r (sessionKey s) nonce ?enc"
    using crypto_okD(2)[OF ok] by simp
  note V = VerifyThenDecrypt_layout [OF mac(2) ln' le mac(1) dec lpl, of rest]
  have lo: "unat (bufbe32toh (drop 4 ?plain)) = len"
    using len32 by (simp add: unat_of_nat)
  have up: "bufbe32toh ?plain \<noteq> 0" by simp
  have s1: "size_t_of (int len + int ?off) = len + ?off"
    using room fit by (simp add: size_small)
  have s2: "size_t_of (int ?off + int len) = ?off + len"
    using room fit by (simp add: size_small)
  have m: "len - 512 \<le> length rest \<Longrightarrow> memcpy (recvMsg s) ?off (drop 8 ?plain @ rest) len
           = take ?off (recvMsg s) @ payload @ take (len - 512) rest @ drop (?off + len) (recvMsg s)"
    using lp big by (simp add: memcpy_def frag_sizes)
  have lfr: "length (mac @ nonce @ ?enc) = FragmentBufferSize"
    using mac(2) ln' le by (simp add: frag_sizes)
  have lbuf: "length (mac @ nonce @ ?plain @ rest) = 576 + length rest"
    using mac(2) ln' lpl by simp
  have nr: "\<not> length (recvMsg s) < len + ?off" using room by simp
  have R: "VerifyThenDecrypt r s (mac @ nonce @ ?enc @ rest) =
      (if 64 + len > 576 + length rest then (Some ReadOutOfBounds, s, mac @ nonce @ ?plain @ rest)
       else (None, s\<lparr>recvMsg := memcpy (recvMsg s) ?off (drop 8 ?plain @ rest) len,
                       recvMsgOffset := ?off + len\<rparr>, mac @ nonce @ ?plain @ rest))"
    unfolding V Let_def lo s1 s2 lbuf using up nr by simp
  have A: "len - FragmentBodyPayloadSize \<le> length rest \<longrightarrow>
              fst (VerifyThenDecrypt r s (mac @ nonce @ ?enc @ rest)) = None
              \<and> fst (snd (VerifyThenDecrypt r s (mac @ nonce @ ?enc @ rest))) =
                  s\<lparr>recvMsg := take ?off (recvMsg s) @ payload
                                 @ take (len - FragmentBodyPayloadSize) rest
                                 @ drop (?off + len) (recvMsg s),
                    recvMsgOffset := ?off + len\<rparr>"
  proof
    assume h: "len - FragmentBodyPayloadSize \<le> length rest"
    then have "\<not> 64 + len > 576 + length rest" by (simp add: frag_sizes)
    moreover have "len - 512 \<le> length rest" using h by (simp add: frag_sizes)
    ultimately show "fst (VerifyThenDecrypt r s (mac @ nonce @ ?enc @ rest)) = None
              \<and> fst (snd (VerifyThenDecrypt r s (mac @ nonce @ ?enc @ rest))) =
                  s\<lparr>recvMsg := take ?off (recvMsg s) @ payload
                                 @ take (len - FragmentBodyPayloadSize) rest
                                 @ drop (?off + len) (recvMsg s),
                    recvMsgOffset := ?off + len\<rparr>"
      unfolding R using m by (simp add: frag_sizes)
  qed
  have B: "len - FragmentBodyPayloadSize > length rest \<longrightarrow>
              fst (VerifyThenDecrypt r s (mac @ nonce @ ?enc @ rest)) = Some ReadOutOfBounds"
    unfolding R using big by (auto simp add: frag_sizes)
  show ?thesis
    unfolding Let_def frag append_assoc using lfr A B by blast
qed


theorem VerifyThenDecrypt_accepts_long_LEN_witness:
  "crypto_ok test_router
   \<and> length (replicate 24 (1 :: byte)) = FragmentNonceSize
   \<and> length (replicate 512 (170 :: byte)) = FragmentBodyPayloadSize
   \<and> FragmentBodyPayloadSize < 600
   \<and> recvMsgOffset example_session + 600 \<le> length (recvMsg example_session)
   \<and> fst (VerifyThenDecrypt test_router example_session
            (peer_fragment test_router (sessionKey example_session) (replicate 24 1)
               (htobe32buf 1 @ htobe32buf 600 @ replicate 512 170) @ replicate 576 85)) = None
   \<and> recvMsgOffset (fst (snd (VerifyThenDecrypt test_router example_session
            (peer_fragment test_router (sessionKey example_session) (replicate 24 1)
               (htobe32buf 1 @ htobe32buf 600 @ replicate 512 170) @ replicate 576 85)))) = 600
   \<and> take 600 (recvMsg (fst (snd (VerifyThenDecrypt test_router example_session
            (peer_fragment test_router (sessionKey example_session) (replicate 24 1)
               (htobe32buf 1 @ htobe32buf 600 @ replicate 512 170) @ replicate 576 85)))))
       = replicate 512 170 @ replicate 88 85
   \<and> fst (VerifyThenDecrypt test_router example_session
            (peer_fragment test_router (sessionKey example_session) (replicate 24 1)
               (htobe32buf 1 @ htobe32buf 600 @ replicate 512 170))) = Some ReadOutOfBounds"
proof -
  have a: "length (replicate 24 (1 :: byte)) = FragmentNonceSize
     \<and> length (replicate 512 (170 :: byte)) = FragmentBodyPayloadSize
     \<and> FragmentBodyPayloadSize < 600
     \<and> recvMsgOffset example_session + 600 \<le> length (recvMsg example_session)"
    by (simp add: frag_sizes)
  note T = VerifyThenDecrypt_accepts_long_LEN [OF crypto_ok_test, of "replicate 24 1"
      "replicate 512 170" 600 example_session, unfolded Let_def]
  have b: "fst (VerifyThenDecrypt test_router example_session
            (peer_fragment test_router (sessionKey example_session) (replicate 24 1)
               (htobe32buf 1 @ htobe32buf 600 @ replicate 512 170) @ replicate 576 85)) = None
     \<and> fst (snd (VerifyThenDecrypt test_router example_session
            (peer_fragment test_router (sessionKey example_session) (replicate 24 1)
               (htobe32buf 1 @ htobe32buf 600 @ replicate 512 170) @ replicate 576 85)))
       = example_session\<lparr>recvMsg := take 0 (recvMsg example_session) @ replicate 512 170
                                 @ take (600 - FragmentBodyPayloadSize) (replicate 576 85)
                                 @ drop (0 + 600) (recvMsg example_session),
                    recvMsgOffset := 0 + 600\<rparr>"
    using T [of "replicate 576 85"] by (simp add: frag_sizes)
  have c: "fst (VerifyThenDecrypt test_router example_session
            (peer_fragment test_router (sessionKey example_session) (replicate 24 1)
               (htobe32buf 1 @ htobe32buf 600 @ replicate 512 170))) = Some ReadOutOfBounds"
    using T [of "[]"] by (simp add: frag_sizes)
  have d: "take 600 (replicate 512 (170 :: byte) @ take (600 - FragmentBodyPayloadSize) (replicate 576 85) @ xs)
           = replicate 512 170 @ replicate 88 85" for xs
    by (simp add: frag_sizes)
  have e: "recvMsgOffset (fst (snd (VerifyThenDecrypt test_router example_session
            (peer_fragment test_router (sessionKey example_session) (replicate 24 1)
               (htobe32buf 1 @ htobe32buf 600 @ replicate 512 170) @ replicate 576 85)))) = 600"
    using b by simp
  have f: "take 600 (recvMsg (fst (snd (VerifyThenDecrypt test_router example_session
            (peer_fragment test_router (sessionKey example_session) (replicate 24 1)
               (htobe32buf 1 @ htobe32buf 600 @ replicate 512 170) @ replicate 576 85)))))
       = replicate 512 170 @ replicate 88 85"
    using b d by simp
  show ?thesis
    using crypto_ok_test a b c e f by blast
qed


text \<open>
  C10. On a session in state SessionReady, \<^verbatim>\<open>QueueWriteBuffers\<close> with a zero-length
  buffer returns true, refreshes \<open>lastActive\<close>, and enqueues no fragment: the session
  is otherwise unchanged, so nothing is ever transmitted for the empty message.
\<close>

theorem QueueWriteBuffers_empty:
  assumes "state s = eSessionReady"
  shows "QueueWriteBuffers r rnds now s [] = (True, s\<lparr>lastActive := now\<rparr>)
         \<and> sendq (snd (QueueWriteBuffers r rnds now s [])) = sendq s"
  using assms by (simp add: QueueWriteBuffers_def QueueWriteBuffers_loop.simps)

theorem QueueWriteBuffers_empty_witness:
  "state (ready_session 8192 (replicate 32 7)) = eSessionReady
   \<and> QueueWriteBuffers test_router test_rnds 5 (ready_session 8192 (replicate 32 7)) []
       = (True, (ready_session 8192 (replicate 32 7))\<lparr>lastActive := 5\<rparr>)
   \<and> sendq (snd (QueueWriteBuffers test_router test_rnds 5 (ready_session 8192 (replicate 32 7)) [])) = []"
  using QueueWriteBuffers_empty [of "ready_session 8192 (replicate 32 7)" test_router test_rnds 5]
  by (simp add: ready_session_def inbound_session_def EnterState_def Alive_def)

text \<open>
  C8. A second \<^verbatim>\<open>Close\<close> makes no further transport call (the trace is the one the
  first call left) and leaves the state Closed and the socket cleared. The one field it
  writes is \<open>lastActive\<close>, which it stamps again; on a closed session that is not
  visible through \<^verbatim>\<open>TimedOut\<close> or \<^verbatim>\<open>IsEstablished\<close>. A session that is not in
  state SessionReady, in particular a closed one, answers \<^verbatim>\<open>QueueWriteBuffers\<close> (which
  \<^verbatim>\<open>SendMessageBuffer\<close> is bound to) with false and is left as it was, send queue
  included.
\<close>

theorem Close_idempotent_send_rejected:
  "Close n2 (Close n1 s) = (Close n1 s)\<lparr>lastActive := n2\<rparr>
   \<and> trace (Close n2 (Close n1 s)) = trace (Close n1 s)
   \<and> state (Close n2 (Close n1 s)) = eClose
   \<and> sock (Close n2 (Close n1 s)) = None
   \<and> TimedOut t (Close n2 (Close n1 s)) = TimedOut t (Close n1 s)
   \<and> IsEstablished (Close n2 (Close n1 s)) = IsEstablished (Close n1 s)
   \<and> QueueWriteBuffers r rnds now (Close n1 s) buf = (False, Close n1 s)
   \<and> (state s \<noteq> eSessionReady \<longrightarrow> QueueWriteBuffers r rnds now s buf = (False, s))"
  by (simp add: Close_Close QueueWriteBuffers_def TimedOut_def IsEstablished_def)
     (simp add: Close_def EnterState_def Alive_def Let_def)

theorem Close_idempotent_send_rejected_witness:
  "state (inbound_session 8192 0 4) \<noteq> eSessionReady
   \<and> QueueWriteBuffers test_router test_rnds 9 (inbound_session 8192 0 4) [1, 2, 3]
       = (False, inbound_session 8192 0 4)
   \<and> trace (Close 7 (Close 5 (ready_session 8192 (replicate 32 7))))
       = [UtpShutdown (Some 4), UtpClose (Some 4), UtpClearUserdata (Some 4)]
   \<and> state (Close 7 (Close 5 (ready_session 8192 (replicate 32 7)))) = eClose
   \<and> lastActive (Close 7 (Close 5 (ready_session 8192 (replicate 32 7)))) = 7
   \<and> TimedOut 8 (Close 7 (Close 5 (ready_session 8192 (replicate 32 7))))
   \<and> fst (QueueWriteBuffers test_router test_rnds 9 (Close 5 (ready_session 8192 (replicate 32 7)))
          [1, 2, 3]) = False"
  using Close_idempotent_send_rejected
          [of 7 5 "ready_session 8192 (replicate 32 7)" 8 test_router test_rnds 9 "[1,2,3]"]
        Close_idempotent_send_rejected
          [of 7 5 "inbound_session 8192 0 4" 8 test_router test_rnds 9 "[1,2,3]"]
  by (simp add: ready_session_def inbound_session_def EnterState_def Alive_def Close_def Let_def
      TimedOut_def)

text \<open>
  C6. Fragmentation. \<^verbatim>\<open>QueueWriteBuffers\<close> on a session in state SessionReady, for a
  message \<open>M\<close> of any length, returns true, changes only \<open>lastActive\<close> and the send
  queue, and appends to the queue, in order, exactly \<open>ceil(|M|/512)\<close> fragments. Each
  has 576 bytes; read as the receiver reads it, fragment \<open>i\<close> carries CONT_FLAG 1, or 0
  if it is the last one, LEN \<open>min 512 (|M| - 512 i)\<close>, and as payload the \<open>i\<close>-th
  512-byte chunk of \<open>M\<close>. (The witness: 2048 bytes give four fragments with flags
  1, 1, 1, 0 and lengths 512, 512, 512, 512.)
\<close>

theorem QueueWriteBuffers_fragments:
  assumes ok: "crypto_ok r" and ready: "state s = eSessionReady"
  shows
    "(let res = QueueWriteBuffers r rnds now s M;
          q = sendq (snd res);
          new = drop (length (sendq s)) q;
          n = (length M + 511) div 512
      in fst res
         \<and> snd res = s\<lparr>lastActive := now, sendq := q\<rparr>
         \<and> take (length (sendq s)) q = sendq s
         \<and> length new = n
         \<and> (\<forall>i < n.
               length (new ! i) = FragmentBufferSize
               \<and> frag_CONT_FLAG r (sessionKey s) (new ! i) = (if Suc i = n then 0 else 1)
               \<and> frag_LEN r (sessionKey s) (new ! i) = min 512 (length M - 512 * i)
               \<and> frag_payload r (sessionKey s) (new ! i) = take 512 (drop (512 * i) M)))"
proof -
  let ?s0 = "s\<lparr>lastActive := now\<rparr>"
  have st0: "state ?s0 = eSessionReady" using ready by simp
  obtain new where
    L: "QueueWriteBuffers_loop r rnds 0 ?s0 M = ?s0\<lparr>sendq := sendq ?s0 @ new\<rparr>"
    and N: "length new = (length M + 511) div 512"
    and C: "\<forall>i < length new.
              fragment_carries r (sessionKey ?s0) (new ! i)
                (if Suc i = length new then 0 else 1) (take 512 (drop (512 * i) M))"
    using loop_carries [OF ok st0, of rnds 0 M] by blast
  have Q: "QueueWriteBuffers r rnds now s M = (True, s\<lparr>lastActive := now, sendq := sendq s @ new\<rparr>)"
    using ready L by (simp add: QueueWriteBuffers_def)
  have each: "length (new ! i) = FragmentBufferSize
               \<and> frag_CONT_FLAG r (sessionKey s) (new ! i)
                   = (if Suc i = (length M + 511) div 512 then 0 else 1)
               \<and> frag_LEN r (sessionKey s) (new ! i) = min 512 (length M - 512 * i)
               \<and> frag_payload r (sessionKey s) (new ! i) = take 512 (drop (512 * i) M)"
    if "i < (length M + 511) div 512" for i
  proof -
    have "fragment_carries r (sessionKey s) (new ! i)
                (if Suc i = length new then 0 else 1) (take 512 (drop (512 * i) M))"
      using C that N by simp
    then show ?thesis
      unfolding fragment_carries_def N by (simp add: min.commute)
  qed
  show ?thesis
    unfolding Let_def Q using N each by simp
qed

theorem QueueWriteBuffers_fragments_witness:
  "crypto_ok test_router \<and> state example_session = eSessionReady
   \<and> length sent_2048 = 4
   \<and> map length sent_2048 = [576, 576, 576, 576]
   \<and> map (frag_CONT_FLAG test_router (sessionKey example_session)) sent_2048 = [1, 1, 1, 0]
   \<and> map (frag_LEN test_router (sessionKey example_session)) sent_2048 = [512, 512, 512, 512]"
proof -
  have q0: "sendq example_session = []"
    by (simp add: example_session_def ready_session_def inbound_session_def EnterState_def Alive_def)
  note T = QueueWriteBuffers_fragments [OF crypto_ok_test example_session_simps(1),
      of test_rnds 5 "replicate 2048 9", unfolded Let_def q0, folded sent_2048_def]
  have n: "(length (replicate 2048 (9 :: byte)) + 511) div 512 = 4" by simp
  have len: "length sent_2048 = 4" using T n by simp
  have e: "length (sent_2048 ! i) = 576
       \<and> frag_CONT_FLAG test_router (sessionKey example_session) (sent_2048 ! i)
           = (if Suc i = 4 then 0 else 1)
       \<and> frag_LEN test_router (sessionKey example_session) (sent_2048 ! i) = 512"
    if "i < 4" for i
    using T that unfolding n by (auto simp: frag_sizes)
  obtain a b c d where l: "sent_2048 = [a, b, c, d]"
    using len by (auto simp: length_Suc_conv numeral_eq_Suc)
  have "length a = 576 \<and> length b = 576 \<and> length c = 576 \<and> length d = 576"
    using e [of 0] e [of 1] e [of 2] e [of 3] unfolding l by simp
  moreover have "frag_CONT_FLAG test_router (sessionKey example_session) a = 1
      \<and> frag_CONT_FLAG test_router (sessionKey example_session) b = 1
      \<and> frag_CONT_FLAG test_router (sessionKey example_session) c = 1
      \<and> frag_CONT_FLAG test_router (sessionKey example_session) d = 0"
    using e [of 0] e [of 1] e [of 2] e [of 3] unfolding l by simp
  moreover have "frag_LEN test_router (sessionKey example_session) a = 512
      \<and> frag_LEN test_router (sessionKey example_session) b = 512
      \<and> frag_LEN test_router (sessionKey example_session) c = 512
      \<and> frag_LEN test_router (sessionKey example_session) d = 512"
    using e [of 0] e [of 1] e [of 2] e [of 3] unfolding l by simp
  ultimately have m: "map length sent_2048 = [576, 576, 576, 576]
   \<and> map (frag_CONT_FLAG test_router (sessionKey example_session)) sent_2048 = [1, 1, 1, 0]
   \<and> map (frag_LEN test_router (sessionKey example_session)) sent_2048 = [512, 512, 512, 512]"
    unfolding l by simp
  show ?thesis using crypto_ok_test example_session_simps(1) len m by blast
qed

text \<open>
  C7. A \<^verbatim>\<open>PumpWrite\<close> call on a well-formed send side with a non-empty queue, over
  a transport that accepts between none and all of the bytes offered. For the first turn
  and for every turn \<open>i\<close> of the call (\<open>turns\<close> lists the states in which the
  loop body is entered, the first being the state of the call): the offset is below 576,
  the transport accepts \<open>n\<close> of the \<open>576 - sendBufOffset\<close> bytes offered; a short
  write adds exactly \<open>n\<close> to \<open>sendBufOffset\<close> (so the offset does not decrease),
  keeps the head fragment and marks the session stalled, and that turn is the last one:
  the call returns its state; a full write pops the head and resets the offset to 0, and
  the call goes on from that state. The call returns the state after its last turn (its
  argument when the session is already stalled), with the queue empty or the session
  stalled, the queue a suffix of the initial one, the offset below 576 and the send side
  well formed; a session is constructed with a well-formed send side (offset 0, empty
  queue).
\<close>

theorem PumpWrite_backpressure:
  assumes ok: "utp_write_ok w" and inv: "sendq_inv s" and ne: "sendq s \<noteq> []"
  shows
    "(let off = sendBufOffset s;
          n = fst (write_ll w s t (drop off (hd (sendq s))) (FragmentBufferSize - off));
          st' = PumpWrite_body w (s, t);
          fin = PumpWrite w (s, t);
          turns = PumpWrite_turns w (s, t)
      in (n < int (FragmentBufferSize - off) \<longrightarrow>
            sendBufOffset (fst st') = off + nat n \<and> off \<le> sendBufOffset (fst st')
            \<and> stalled (fst st') \<and> sendq (fst st') = sendq s \<and> PumpWrite w st' = st')
         \<and> (n = int (FragmentBufferSize - off) \<longrightarrow>
            sendBufOffset (fst st') = 0 \<and> sendq (fst st') = tl (sendq s)
            \<and> stalled (fst st') = stalled s)
         \<and> 0 \<le> n \<and> n \<le> int (FragmentBufferSize - off)
         \<and> sendBufOffset (fst st') < FragmentBufferSize
         \<and> sendBufOffset (fst (PumpWrite w (s, t))) < FragmentBufferSize
         \<and> sendq_inv (fst (PumpWrite w (s, t)))
         \<and> sendq_inv (inbound_session maxmsg t0 sk)
         \<and> snd st' = snd (write_ll w s t (drop off (hd (sendq s))) (FragmentBufferSize - off))
         \<and> (stalled s \<longrightarrow> fin = (s, t))
         \<and> (\<not> stalled s \<longrightarrow> fin = PumpWrite w st')
         \<and> (\<not> stalled s \<and> n < int (FragmentBufferSize - off) \<longrightarrow> fin = st')
         \<and> (\<not> stalled s \<and> n = int (FragmentBufferSize - off) \<longrightarrow>
               fin = PumpWrite w (s\<lparr>sendBufOffset := 0, sendq := tl (sendq s)\<rparr>, snd st'))
         \<and> (sendq (fst fin) = [] \<or> stalled (fst fin))
         \<and> (\<exists>k. sendq (fst fin) = drop k (sendq s))
         \<and> (stalled s \<longrightarrow> turns = [])
         \<and> (\<not> stalled s \<longrightarrow> turns \<noteq> [] \<and> hd turns = (s, t))
         \<and> (\<forall>i < length turns.
               let u = turns ! i;
                   offi = sendBufOffset (fst u);
                   ni = fst (write_ll w (fst u) (snd u) (drop offi (hd (sendq (fst u))))
                               (FragmentBufferSize - offi));
                   u' = PumpWrite_body w u
               in offi < FragmentBufferSize
                  \<and> sendq (fst u) \<noteq> [] \<and> \<not> stalled (fst u)
                  \<and> 0 \<le> ni \<and> ni \<le> int (FragmentBufferSize - offi)
                  \<and> (ni < int (FragmentBufferSize - offi) \<longrightarrow>
                        sendBufOffset (fst u') = offi + nat ni \<and> stalled (fst u')
                        \<and> sendq (fst u') = sendq (fst u) \<and> Suc i = length turns)
                  \<and> (ni = int (FragmentBufferSize - offi) \<longrightarrow>
                        sendBufOffset (fst u') = 0 \<and> sendq (fst u') = tl (sendq (fst u))
                        \<and> \<not> stalled (fst u'))
                  \<and> (Suc i < length turns \<longrightarrow> turns ! Suc i = u')
                  \<and> (Suc i = length turns \<longrightarrow> fin = u')))"
proof -
  let ?off = "sendBufOffset s"
  let ?n = "fst (write_ll w s t (drop ?off (hd (sendq s))) (FragmentBufferSize - ?off))"
  let ?st = "PumpWrite_body w (s, t)"
  let ?fin = "PumpWrite w (s, t)"
  note bs = body_step [OF ok inv ne, of t]
  have short: "sendBufOffset (fst ?st) = ?off + nat ?n \<and> ?off \<le> sendBufOffset (fst ?st)
      \<and> stalled (fst ?st) \<and> sendq (fst ?st) = sendq s \<and> PumpWrite w ?st = ?st"
    if "?n < int (FragmentBufferSize - ?off)"
  proof -
    have eq: "fst ?st = s\<lparr>sendBufOffset := ?off + nat ?n, stalled := True\<rparr>"
      using bs(2) that by simp
    then have "stalled (fst ?st)" by simp
    then have "PumpWrite w ?st = ?st" by (rule PumpWrite_stalled)
    with eq show ?thesis by simp
  qed
  have full: "sendBufOffset (fst ?st) = 0 \<and> sendq (fst ?st) = tl (sendq s)
      \<and> stalled (fst ?st) = stalled s"
    if "?n = int (FragmentBufferSize - ?off)"
    using bs(3) that by simp
  have i1: "sendq_inv (fst ?st)"
    using body_inv [OF ok, of "(s, t)"] inv ne by simp
  have i2: "sendq_inv (fst ?fin)"
    using PumpWrite_inv [OF ok, of "(s, t)"] inv by simp
  have i0: "sendq_inv (inbound_session maxmsg t0 sk)"
    by (simp add: sendq_inv_def inbound_session_def EnterState_def Alive_def frag_sizes)
  have i1': "sendBufOffset (fst ?st) < FragmentBufferSize"
    using i1 by (simp add: sendq_inv_def)
  have i2': "sendBufOffset (fst ?fin) < FragmentBufferSize"
    using i2 by (simp add: sendq_inv_def)
  have off: "?off < 576" using inv by (simp add: sendq_inv_def frag_sizes)
  have e1: "ssize_t_of (int FragmentBufferSize - int ?off) = int (FragmentBufferSize - ?off)"
    using off by (simp add: ssize_small frag_sizes)
  have e2: "size_t_of (int (FragmentBufferSize - ?off)) = FragmentBufferSize - ?off"
    using off by (simp add: size_small frag_sizes)
  have tr: "snd ?st = snd (write_ll w s t (drop ?off (hd (sendq s))) (FragmentBufferSize - ?off))"
    by (simp add: PumpWrite_body_def Let_def e1 e2)
  have u1: "stalled s \<longrightarrow> ?fin = (s, t)"
    by (simp add: PumpWrite_stalled)
  have u2: "\<not> stalled s \<longrightarrow> ?fin = PumpWrite w ?st"
    using ne by (subst PumpWrite_unfold) simp
  have u3: "\<not> stalled s \<and> ?n < int (FragmentBufferSize - ?off) \<longrightarrow> ?fin = ?st"
    using u2 short by auto
  have u4: "\<not> stalled s \<and> ?n = int (FragmentBufferSize - ?off) \<longrightarrow>
               ?fin = PumpWrite w (s\<lparr>sendBufOffset := 0, sendq := tl (sendq s)\<rparr>, snd ?st)"
  proof (intro impI)
    assume a: "\<not> stalled s \<and> ?n = int (FragmentBufferSize - ?off)"
    then have "fst ?st = s\<lparr>sendBufOffset := 0, sendq := tl (sendq s)\<rparr>" using bs(3) by simp
    then have "?st = (s\<lparr>sendBufOffset := 0, sendq := tl (sendq s)\<rparr>, snd ?st)"
      by (metis prod.collapse)
    then show "?fin = PumpWrite w (s\<lparr>sendBufOffset := 0, sendq := tl (sendq s)\<rparr>, snd ?st)"
      using u2 a by simp
  qed
  have x: "sendq (fst ?fin) = [] \<or> stalled (fst ?fin)" by (rule PumpWrite_exit)
  have y: "\<exists>k. sendq (fst ?fin) = drop k (sendq s)"
    using PumpWrite_suffix [of w "(s, t)"] by simp
  let ?T = "PumpWrite_turns w (s, t)"
  have v1: "stalled s \<longrightarrow> ?T = []" by (simp add: PumpWrite_turns_Nil)
  have v2: "\<not> stalled s \<longrightarrow> ?T \<noteq> [] \<and> hd ?T = (s, t)"
    using ne PumpWrite_turns_hd [of w "(s, t)"] by (simp add: PumpWrite_turns_Nil)
  have inv': "sendq_inv (fst (s, t))" using inv by simp
  have v3: "\<forall>i < length ?T.
               let u = ?T ! i;
                   offi = sendBufOffset (fst u);
                   ni = fst (write_ll w (fst u) (snd u) (drop offi (hd (sendq (fst u))))
                               (FragmentBufferSize - offi));
                   u' = PumpWrite_body w u
               in offi < FragmentBufferSize
                  \<and> sendq (fst u) \<noteq> [] \<and> \<not> stalled (fst u)
                  \<and> 0 \<le> ni \<and> ni \<le> int (FragmentBufferSize - offi)
                  \<and> (ni < int (FragmentBufferSize - offi) \<longrightarrow>
                        sendBufOffset (fst u') = offi + nat ni \<and> stalled (fst u')
                        \<and> sendq (fst u') = sendq (fst u) \<and> Suc i = length ?T)
                  \<and> (ni = int (FragmentBufferSize - offi) \<longrightarrow>
                        sendBufOffset (fst u') = 0 \<and> sendq (fst u') = tl (sendq (fst u))
                        \<and> \<not> stalled (fst u'))
                  \<and> (Suc i < length ?T \<longrightarrow> ?T ! Suc i = u')
                  \<and> (Suc i = length ?T \<longrightarrow> ?fin = u')"
  proof (intro allI impI)
    fix i assume i: "i < length ?T"
    note P = PumpWrite_turn [OF ok inv' i]
    show "let u = ?T ! i;
                   offi = sendBufOffset (fst u);
                   ni = fst (write_ll w (fst u) (snd u) (drop offi (hd (sendq (fst u))))
                               (FragmentBufferSize - offi));
                   u' = PumpWrite_body w u
               in offi < FragmentBufferSize
                  \<and> sendq (fst u) \<noteq> [] \<and> \<not> stalled (fst u)
                  \<and> 0 \<le> ni \<and> ni \<le> int (FragmentBufferSize - offi)
                  \<and> (ni < int (FragmentBufferSize - offi) \<longrightarrow>
                        sendBufOffset (fst u') = offi + nat ni \<and> stalled (fst u')
                        \<and> sendq (fst u') = sendq (fst u) \<and> Suc i = length ?T)
                  \<and> (ni = int (FragmentBufferSize - offi) \<longrightarrow>
                        sendBufOffset (fst u') = 0 \<and> sendq (fst u') = tl (sendq (fst u))
                        \<and> \<not> stalled (fst u'))
                  \<and> (Suc i < length ?T \<longrightarrow> ?T ! Suc i = u')
                  \<and> (Suc i = length ?T \<longrightarrow> ?fin = u')"
      unfolding Let_def using P by blast
  qed
  note v3' = v3 [unfolded Let_def]
  show ?thesis
    unfolding Let_def
    apply (intro conjI)
    using short full bs(1) i1' i2' i2 i0 tr u1 u2 u3 u4 x y v1 v2 v3' by blast+
qed


theorem PumpWrite_backpressure_witness:
  "utp_write_ok window_write \<and> sendq_inv two_queued \<and> sendq two_queued \<noteq> []
   \<and> fst (write_ll window_write two_queued 100 (drop 0 (hd (sendq two_queued))) 576) = 100
   \<and> sendBufOffset (fst (PumpWrite_body window_write (two_queued, 100))) = 100
   \<and> stalled (fst (PumpWrite_body window_write (two_queued, 100)))
   \<and> sendBufOffset (fst (PumpWrite window_write (two_queued, 100))) < 576
   \<and> PumpWrite window_write (two_queued, 100) = PumpWrite_body window_write (two_queued, 100)
   \<and> sendq (fst (PumpWrite window_write (two_queued, 700))) = [replicate 576 187]
   \<and> sendBufOffset (fst (PumpWrite window_write (two_queued, 700))) = 124
   \<and> stalled (fst (PumpWrite window_write (two_queued, 700)))
   \<and> snd (PumpWrite window_write (two_queued, 700)) = 0
   \<and> PumpWrite_turns window_write (two_queued, 700)
       = [(two_queued, 700),
          (two_queued\<lparr>sendBufOffset := 0, sendq := tl (sendq two_queued)\<rparr>, 124)]"
proof -
  let ?s1 = "two_queued\<lparr>sendBufOffset := 0, sendq := tl (sendq two_queued)\<rparr>"
  have a: "fst (write_ll window_write two_queued 100 (drop 0 (hd (sendq two_queued))) 576) = 100
     \<and> sendBufOffset (fst (PumpWrite_body window_write (two_queued, 100))) = 100
     \<and> stalled (fst (PumpWrite_body window_write (two_queued, 100)))
     \<and> sendBufOffset (fst (PumpWrite window_write (two_queued, 100))) < 576
     \<and> PumpWrite window_write (two_queued, 100) = PumpWrite_body window_write (two_queued, 100)"
    using PumpWrite_backpressure [OF window_write_ok two_queued_inv, where t = 100
        and maxmsg = 0 and ?t0.0 = 0 and sk = 0]
    by (simp add: Let_def frag_sizes two_queued_fields write_ll_def window_write_def)
  let ?a1 = "drop (sendBufOffset two_queued) (hd (sendq two_queued))"
  let ?z1 = "FragmentBufferSize - sendBufOffset two_queued"
  have w1: "write_ll window_write two_queued 700 ?a1 ?z1 = (576, 124)"
    by (simp add: two_queued_fields write_ll_def window_write_def frag_sizes)
  have ne0: "sendq two_queued \<noteq> []" by (simp add: two_queued_fields)
  note T1 = PumpWrite_backpressure [OF window_write_ok two_queued_inv ne0, where t = 700
        and maxmsg = 0 and ?t0.0 = 0 and sk = 0, unfolded Let_def w1]
  have n1: "fst (576 :: int, 124 :: nat) = int ?z1" by (simp add: two_queued_fields frag_sizes)
  have b1: "PumpWrite window_write (two_queued, 700)
            = PumpWrite window_write (?s1, snd (PumpWrite_body window_write (two_queued, 700)))"
    using T1 n1 two_queued_fields(3) by blast
  have b2: "snd (PumpWrite_body window_write (two_queued, 700)) = snd (576 :: int, 124 :: nat)"
    using T1 by blast
  have b: "PumpWrite window_write (two_queued, 700) = PumpWrite window_write (?s1, 124)"
    using b1 b2 by simp
  have inv1: "sendq_inv ?s1"
    by (simp add: sendq_inv_def two_queued_fields frag_sizes)
  have f1: "sendq ?s1 = [replicate 576 187]" "sendBufOffset ?s1 = 0" "\<not> stalled ?s1"
    "sock ?s1 = Some 4"
    by (simp_all add: two_queued_fields)
  let ?a2 = "drop (sendBufOffset ?s1) (hd (sendq ?s1))"
  let ?z2 = "FragmentBufferSize - sendBufOffset ?s1"
  have w2: "write_ll window_write ?s1 124 ?a2 ?z2 = (124, 0)"
    by (simp add: two_queued_fields write_ll_def window_write_def frag_sizes)
  have ne1: "sendq ?s1 \<noteq> []" by (simp add: two_queued_fields)
  note T2 = PumpWrite_backpressure [OF window_write_ok inv1 ne1, where t = 124
        and maxmsg = 0 and ?t0.0 = 0 and sk = 0, unfolded Let_def w2]
  have n2: "fst (124 :: int, 0 :: nat) < int ?z2" by (simp add: two_queued_fields frag_sizes)
  have c1: "PumpWrite window_write (?s1, 124) = PumpWrite_body window_write (?s1, 124)"
    using T2 n2 f1(3) by blast
  have c2: "sendBufOffset (fst (PumpWrite_body window_write (?s1, 124)))
              = sendBufOffset ?s1 + nat (fst (124 :: int, 0 :: nat))
            \<and> stalled (fst (PumpWrite_body window_write (?s1, 124)))
            \<and> sendq (fst (PumpWrite_body window_write (?s1, 124))) = sendq ?s1"
    using T2 n2 by blast
  have c3: "snd (PumpWrite_body window_write (?s1, 124)) = snd (124 :: int, 0 :: nat)"
    using T2 by blast
  have c: "sendq (fst (PumpWrite window_write (?s1, 124))) = [replicate 576 187]
     \<and> sendBufOffset (fst (PumpWrite window_write (?s1, 124))) = 124
     \<and> stalled (fst (PumpWrite window_write (?s1, 124)))
     \<and> snd (PumpWrite window_write (?s1, 124)) = 0"
    unfolding c1 using c2 c3 by (simp add: two_queued_fields)
  have d1: "PumpWrite_body window_write (two_queued, 700) = (?s1, 124)"
    using body_step(3) [OF window_write_ok two_queued_inv ne0, of 700] w1 b2
    by (simp add: prod_eq_iff two_queued_fields frag_sizes)
  have d2: "PumpWrite_turns window_write (PumpWrite_body window_write (?s1, 124)) = []"
    using c2 by (simp add: PumpWrite_turns_Nil)
  have t2: "PumpWrite_turns window_write (?s1, 124) = [(?s1, 124)]"
    using d2 ne1 f1(3) by (subst PumpWrite_turns_unfold) simp
  have d: "PumpWrite_turns window_write (two_queued, 700) = [(two_queued, 700), (?s1, 124)]"
    using ne0 two_queued_fields(3) by (subst PumpWrite_turns_unfold) (simp add: d1 t2)
  have abc: "utp_write_ok window_write \<and> sendq_inv two_queued \<and> sendq two_queued \<noteq> []
   \<and> fst (write_ll window_write two_queued 100 (drop 0 (hd (sendq two_queued))) 576) = 100
   \<and> sendBufOffset (fst (PumpWrite_body window_write (two_queued, 100))) = 100
   \<and> stalled (fst (PumpWrite_body window_write (two_queued, 100)))
   \<and> sendBufOffset (fst (PumpWrite window_write (two_queued, 100))) < 576
   \<and> PumpWrite window_write (two_queued, 100) = PumpWrite_body window_write (two_queued, 100)
   \<and> sendq (fst (PumpWrite window_write (two_queued, 700))) = [replicate 576 187]
   \<and> sendBufOffset (fst (PumpWrite window_write (two_queued, 700))) = 124
   \<and> stalled (fst (PumpWrite window_write (two_queued, 700)))
   \<and> snd (PumpWrite window_write (two_queued, 700)) = 0"
    using window_write_ok two_queued_inv a b c by (simp add: two_queued_fields)
  show ?thesis using abc d by blast
qed


text \<open>
  C4. The claim: a handshake delivery whose LinkIntro parses but whose contact fails
  the signature check closes the session. The code: \<^verbatim>\<open>RecvHandshake\<close> returns on
  that path without calling \<^verbatim>\<open>Close\<close>, unlike every other failure path of the
  function. The session keeps the state LinkEstablished, no transport call is made but
  \<^verbatim>\<open>utp_read_drained\<close>, and (the witness) a later delivery with a valid LinkIntro
  takes the same session to SessionReady.
\<close>

theorem RecvHandshake_bad_signature_stays_open:
  assumes "state s = eLinkEstablished" and "length body < 2 ^ 32" and "body \<noteq> []"
    and "BDecode r body = Some msg" and "\<not> HandleMessage r msg"
  shows "OnRead r now (Some s) (lim_frame (LLARP_PROTO_VERSION r) body @ trailing) sk
           = Some (s\<lparr>sock := Some sk, trace := trace s @ [UtpReadDrained sk]\<rparr>)
         \<and> state (RecvHandshake r now s (lim_frame (LLARP_PROTO_VERSION r) body @ trailing) sk)
           = eLinkEstablished"
proof -
  have "RecvHandshake r now s (lim_frame (LLARP_PROTO_VERSION r) body @ trailing) sk
          = s\<lparr>sock := Some sk\<rparr>"
    using assms RecvHandshake_frame [of body trailing r now s sk] by simp
  then show ?thesis using assms(1) by (simp add: OnRead_def)
qed

theorem RecvHandshake_bad_signature_stays_open_witness:
  "state (inbound_session 8192 0 4) = eLinkEstablished
   \<and> BDecode test_router lim_body_unsigned
       = Some \<lparr>rc = \<lparr>pubkey = replicate 32 0, enckey = replicate 32 6\<rparr>, N = replicate 24 9\<rparr>
   \<and> \<not> HandleMessage test_router
         \<lparr>rc = \<lparr>pubkey = replicate 32 0, enckey = replicate 32 6\<rparr>, N = replicate 24 9\<rparr>
   \<and> OnRead test_router 10 (Some (inbound_session 8192 0 4)) (lim_frame 1 lim_body_unsigned) 4
        = Some ((inbound_session 8192 0 4)\<lparr>trace := [UtpReadDrained 4]\<rparr>)
   \<and> state (RecvHandshake test_router 10 (inbound_session 8192 0 4)
               (lim_frame 1 lim_body_unsigned) 4) = eLinkEstablished
   \<and> map_option state
        (OnRead test_router 20
           (OnRead test_router 10 (Some (inbound_session 8192 0 4)) (lim_frame 1 lim_body_unsigned) 4)
           (lim_frame 1 lim_body_signed) 4) = Some eSessionReady"
proof -
  have h: "\<not> HandleMessage test_router
         \<lparr>rc = \<lparr>pubkey = replicate 32 0, enckey = replicate 32 6\<rparr>, N = replicate 24 9\<rparr>"
    by (simp add: test_router_def)
  have t: "(inbound_session 8192 0 4)\<lparr>sock := Some 4, trace := trace (inbound_session 8192 0 4) @ [UtpReadDrained 4]\<rparr>
          = (inbound_session 8192 0 4)\<lparr>trace := [UtpReadDrained 4]\<rparr>"
    by (simp add: inbound_session_def EnterState_def Alive_def)
  have m: "OnRead test_router 10 (Some (inbound_session 8192 0 4)) (lim_frame 1 lim_body_unsigned) 4
        = Some ((inbound_session 8192 0 4)\<lparr>trace := [UtpReadDrained 4]\<rparr>)
      \<and> state (RecvHandshake test_router 10 (inbound_session 8192 0 4)
               (lim_frame 1 lim_body_unsigned) 4) = eLinkEstablished"
    using RecvHandshake_bad_signature_stays_open
            [of "inbound_session 8192 0 4" lim_body_unsigned test_router _ 10 "[]" 4,
             OF state_inbound _ lim_unsigned_len(2) BDecode_unsigned h]
    by (simp add: lim_unsigned_len t)
  have n: "map_option state
        (OnRead test_router 20
           (OnRead test_router 10 (Some (inbound_session 8192 0 4)) (lim_frame 1 lim_body_unsigned) 4)
           (lim_frame 1 lim_body_signed) 4) = Some eSessionReady"
    by (simp add: m) (simp add: OnRead_def handshake_signed_state Let_def)
  show ?thesis
    using m n h BDecode_unsigned state_inbound by blast
qed

text \<open>
  C5. The claim: bytes that follow the LinkIntro frame in the same delivery go through
  the fragment pipeline. The code: \<^verbatim>\<open>RecvHandshake\<close> hands them to \<^verbatim>\<open>Recv\<close> before
  \<^verbatim>\<open>EnterState(eSessionReady)\<close>, \<^verbatim>\<open>Recv\<close> refuses them because the session is not
  ready yet, and the refusal is ignored: the delivery has the same effect as the frame
  alone, whatever follows it. (The witness: 100 trailing bytes leave \<open>recvBufOffset\<close>
  at 0, where the same bytes read on the ready session set it to 100.)
\<close>

theorem RecvHandshake_drops_trailing:
  assumes "state s = eLinkEstablished" and "length body < 2 ^ 32" and "body \<noteq> []"
  shows "OnRead r now (Some s) (lim_frame (LLARP_PROTO_VERSION r) body @ trailing) sk
           = OnRead r now (Some s) (lim_frame (LLARP_PROTO_VERSION r) body) sk"
proof -
  have ns: "\<And>s'. state s' = eLinkEstablished \<Longrightarrow> Recv r now s' trailing = (Some SessionNotReady, s')"
    by (simp add: Recv_not_ready)
  have kx: "\<And>m. fst (DoKeyExchange (transport_dh_server r) now (s\<lparr>sock := Some sk, remoteRC := rc m\<rparr>) (N m)
                  (enckey (rc m)) (TransportSecretKey r)) \<Longrightarrow>
            state (snd (DoKeyExchange (transport_dh_server r) now (s\<lparr>sock := Some sk, remoteRC := rc m\<rparr>) (N m)
                  (enckey (rc m)) (TransportSecretKey r))) = eLinkEstablished"
    using assms(1) by (simp add: DoKeyExchange_state)
  have f1: "body @ trailing \<noteq> []" and f2: "body @ [] \<noteq> []" using assms(3) by simp_all
  have "RecvHandshake r now s (lim_frame (LLARP_PROTO_VERSION r) body @ trailing) sk
        = RecvHandshake r now s (lim_frame (LLARP_PROTO_VERSION r) body @ []) sk"
    unfolding RecvHandshake_frame [OF assms(2) f1] RecvHandshake_frame [OF assms(2) f2]
    by (auto simp: Let_def ns kx split: option.split)
  then show ?thesis using assms(1) by (simp add: OnRead_def)
qed


theorem RecvHandshake_drops_trailing_witness:
  "state (inbound_session 8192 0 4) = eLinkEstablished
   \<and> length lim_body_signed < 2 ^ 32 \<and> lim_body_signed \<noteq> []
   \<and> OnRead test_router 10 (Some (inbound_session 8192 0 4))
         (lim_frame 1 lim_body_signed @ replicate 100 170) 4
       = OnRead test_router 10 (Some (inbound_session 8192 0 4)) (lim_frame 1 lim_body_signed) 4
   \<and> map_option state (OnRead test_router 10 (Some (inbound_session 8192 0 4))
         (lim_frame 1 lim_body_signed @ replicate 100 170) 4) = Some eSessionReady
   \<and> map_option recvBufOffset (OnRead test_router 10 (Some (inbound_session 8192 0 4))
         (lim_frame 1 lim_body_signed @ replicate 100 170) 4) = Some 0
   \<and> map_option recvBufOffset
        (OnRead test_router 11
           (OnRead test_router 10 (Some (inbound_session 8192 0 4)) (lim_frame 1 lim_body_signed) 4)
           (replicate 100 170) 4) = Some 100"
proof -
  have a: "OnRead test_router 10 (Some (inbound_session 8192 0 4)) (lim_frame 1 lim_body_signed) 4
     = Some ((inbound_session 8192 0 4)
         \<lparr>remoteRC := \<lparr>pubkey = replicate 32 5, enckey = replicate 32 6\<rparr>,
          sessionKey := replicate 32 (sum_list (replicate 32 6) + sum_list (replicate 32 3)
                                       + sum_list (replicate 24 9)),
          gotLIM := True, state := eSessionReady, lastActive := 10,
          trace := [MapAddr (replicate 32 5),
                    LinkSessionEstablished \<lparr>pubkey = replicate 32 5, enckey = replicate 32 6\<rparr>,
                    UtpReadDrained 4]\<rparr>)"
    by (simp add: OnRead_def handshake_signed)
  have b: "map_option recvBufOffset
        (OnRead test_router 11
           (OnRead test_router 10 (Some (inbound_session 8192 0 4)) (lim_frame 1 lim_body_signed) 4)
           (replicate 100 170) 4) = Some 100"
    unfolding a
    by (simp add: OnRead_def Recv_def Alive_def Recv_full_short FragmentBufferSize_def
          FragmentOverheadSize_def FragmentHashSize_def FragmentNonceSize_def FragmentBodySize_def
          FragmentBodyOverhead_def FragmentBodyPayloadSize_def
          inbound_session_def EnterState_def)
  have c: "recvBufOffset (inbound_session 8192 0 4) = 0"
    by (simp add: inbound_session_def EnterState_def Alive_def)
  have d: "OnRead test_router 10 (Some (inbound_session 8192 0 4))
         (lim_frame 1 lim_body_signed @ replicate 100 170) 4
       = OnRead test_router 10 (Some (inbound_session 8192 0 4)) (lim_frame 1 lim_body_signed) 4"
    using RecvHandshake_drops_trailing
            [of "inbound_session 8192 0 4" lim_body_signed test_router 10 "replicate 100 170" 4]
    by (simp add: lim_signed_len)
  have e: "map_option state (OnRead test_router 10 (Some (inbound_session 8192 0 4))
         (lim_frame 1 lim_body_signed @ replicate 100 170) 4) = Some eSessionReady"
    unfolding d a by simp
  have f: "map_option recvBufOffset (OnRead test_router 10 (Some (inbound_session 8192 0 4))
         (lim_frame 1 lim_body_signed @ replicate 100 170) 4) = Some 0"
    unfolding d a by (simp add: c)
  have g: "state (inbound_session 8192 0 4) = eLinkEstablished
     \<and> length lim_body_signed < 2 ^ 32 \<and> lim_body_signed \<noteq> []"
    by (simp add: lim_signed_len)
  show ?thesis
    using g d e f b by blast
qed






end
